(* ===== verification/Prelude.thy ===== *)
theory Prelude
  imports Main "HOL-Library.AList" "HOL-Library.List_Lexorder" "HOL-Library.Char_ord"
begin

text \<open>
  What the components share: the collections of facts their proofs draw on, the Go library
  functions on strings, numbers and addresses that the program calls, and generic lemmas on
  association lists.

  Go strings are byte strings: \<^typ>\<open>string\<close> is a list of characters, each one byte. White space is
  the ASCII white space of \<^verbatim>\<open>unicode.IsSpace\<close>. Go's \<^verbatim>\<open>int\<close> is 64 bits wide; where a value is
  only ever a port or a process id it is \<^typ>\<open>int\<close>.
\<close>

section \<open>Fact collections\<close>

named_theorems go_defs \<open>definitions of the Go library functions\<close>
named_theorems reg_simps \<open>reads of the registry after a write\<close>
named_theorems inv_intros \<open>preservation of the registry invariant\<close>

section \<open>The zero value and \<^verbatim>\<open>cmp.Or\<close>\<close>

definition cmp_or :: "'a \<Rightarrow> 'a \<Rightarrow> 'a \<Rightarrow> 'a" where
  "cmp_or zero a b = (if a = zero then b else a)"

lemma cmp_or_zero [simp]: "cmp_or z z b = b"
  by (simp add: cmp_or_def)

lemma cmp_or_keep [simp]: "a \<noteq> z \<Longrightarrow> cmp_or z a b = a"
  by (simp add: cmp_or_def)

lemma cmp_or_nonzero: "b \<noteq> z \<Longrightarrow> cmp_or z a b \<noteq> z"
  by (simp add: cmp_or_def)

section \<open>Strings\<close>

fun has_prefix :: "string \<Rightarrow> string \<Rightarrow> bool" where
  "has_prefix s [] = True"
| "has_prefix [] (p # ps) = False"
| "has_prefix (c # cs) (p # ps) = (c = p \<and> has_prefix cs ps)"

lemma has_prefix_append [simp]: "has_prefix (p @ s) p"
  by (induction p) auto

lemma has_prefix_split: "has_prefix s p \<longleftrightarrow> (\<exists>r. s = p @ r)"
  by (induction s p rule: has_prefix.induct) auto

definition cut_prefix :: "string \<Rightarrow> string \<Rightarrow> string option" where
  "cut_prefix s p = (if has_prefix s p then Some (drop (length p) s) else None)"

definition trim_prefix :: "string \<Rightarrow> string \<Rightarrow> string" where
  "trim_prefix s p = (if has_prefix s p then drop (length p) s else s)"

lemma cut_prefix_Some: "cut_prefix s p = Some r \<longleftrightarrow> s = p @ r"
  by (auto simp: cut_prefix_def has_prefix_split)

lemma trim_prefix_append [simp]: "trim_prefix (p @ s) p = s"
  by (simp add: trim_prefix_def)

definition is_space :: "char \<Rightarrow> bool" where
  "is_space c \<longleftrightarrow> c \<in> {CHR 0x09, CHR 0x0A, CHR 0x0B, CHR 0x0C, CHR 0x0D, CHR '' ''}"

definition trim_space :: "string \<Rightarrow> string" where
  "trim_space s = rev (dropWhile is_space (rev (dropWhile is_space s)))"

lemma trim_space_empty_iff: "trim_space s = [] \<longleftrightarrow> (\<forall>c\<in>set s. is_space c)"
proof -
  have "trim_space s = [] \<longleftrightarrow> (\<forall>c\<in>set (dropWhile is_space s). is_space c)"
    by (simp add: trim_space_def dropWhile_eq_Nil_conv)
  also have "\<dots> \<longleftrightarrow> (\<forall>c\<in>set s. is_space c)"
    by (induction s) auto
  finally show ?thesis .
qed

text \<open>\<^verbatim>\<open>strings.Cut\<close> at one character, as the program uses it.\<close>

fun cut_at :: "char \<Rightarrow> string \<Rightarrow> (string \<times> string) option" where
  "cut_at c [] = None"
| "cut_at c (x # xs) =
     (if x = c then Some ([], xs) else map_option (\<lambda>(a, b). (x # a, b)) (cut_at c xs))"

lemma cut_at_None: "cut_at c s = None \<longleftrightarrow> c \<notin> set s"
  by (induction s) auto

lemma cut_at_Some: "cut_at c s = Some (a, b) \<Longrightarrow> s = a @ c # b \<and> c \<notin> set a"
  by (induction s arbitrary: a) (auto split: if_splits)

lemma cut_at_append [simp]: "c \<notin> set a \<Longrightarrow> cut_at c (a @ c # b) = Some (a, b)"
  by (induction a) auto

text \<open>\<^verbatim>\<open>strings.Split\<close> at one character.\<close>

fun split_at_char :: "char \<Rightarrow> string \<Rightarrow> string list" where
  "split_at_char c [] = [[]]"
| "split_at_char c (x # xs) =
     (if x = c then [] # split_at_char c xs
      else (case split_at_char c xs of [] \<Rightarrow> [[x]] | p # ps \<Rightarrow> (x # p) # ps))"

lemma split_at_char_nonempty [simp]: "split_at_char c s \<noteq> []"
  by (induction s) (auto split: list.splits)

lemma split_at_char_no_sep: "p \<in> set (split_at_char c s) \<Longrightarrow> c \<notin> set p"
proof (induction s arbitrary: p)
  case (Cons x xs)
  then show ?case by (cases "split_at_char c xs") (auto split: if_splits)
qed simp

fun join_with :: "string \<Rightarrow> string list \<Rightarrow> string" where
  "join_with sep [] = []"
| "join_with sep [x] = x"
| "join_with sep (x # y # ys) = x @ sep @ join_with sep (y # ys)"

lemma join_split_at_char: "join_with [c] (split_at_char c s) = s"
proof (induction s)
  case (Cons x xs)
  obtain p ps where "split_at_char c xs = p # ps"
    by (cases "split_at_char c xs") auto
  with Cons show ?case by (cases ps) auto
qed simp

lemma split_at_char_append:
  "c \<notin> set p \<Longrightarrow> split_at_char c (p @ c # s) = p # split_at_char c s"
  by (induction p) auto

lemma split_at_char_single: "c \<notin> set p \<Longrightarrow> split_at_char c p = [p]"
  by (induction p) auto

text \<open>\<^verbatim>\<open>strings.Fields\<close>: the maximal runs of characters that are not white space.\<close>

fun fields_acc :: "string \<Rightarrow> string \<Rightarrow> string list" where
  "fields_acc cur [] = (if cur = [] then [] else [rev cur])"
| "fields_acc cur (x # xs) =
     (if is_space x then (if cur = [] then fields_acc [] xs else rev cur # fields_acc [] xs)
      else fields_acc (x # cur) xs)"

definition Fields :: "string \<Rightarrow> string list" where
  "Fields s = fields_acc [] s"

lemma fields_acc_parts:
  "list_all (\<lambda>c. \<not> is_space c) cur \<Longrightarrow>
   list_all (\<lambda>f. f \<noteq> [] \<and> list_all (\<lambda>c. \<not> is_space c) f) (fields_acc cur s)"
  by (induction cur s rule: fields_acc.induct) simp_all

lemma fields_parts: "f \<in> set (Fields s) \<Longrightarrow> f \<noteq> [] \<and> list_all (\<lambda>c. \<not> is_space c) f"
  using fields_acc_parts [of "[]" s] by (simp add: Fields_def list_all_iff)

lemma fields_acc_word:
  "list_all (\<lambda>c. \<not> is_space c) w \<Longrightarrow> fields_acc cur (w @ s) = fields_acc (rev w @ cur) s"
  by (induction w arbitrary: cur) auto

lemma fields_word:
  "list_all (\<lambda>c. \<not> is_space c) w \<Longrightarrow> w \<noteq> [] \<Longrightarrow> is_space x \<Longrightarrow> Fields (w @ x # s) = w # Fields s"
  by (simp add: Fields_def fields_acc_word)

lemma fields_last: "list_all (\<lambda>c. \<not> is_space c) w \<Longrightarrow> w \<noteq> [] \<Longrightarrow> Fields w = [w]"
  using fields_acc_word [of w "[]" "[]"] by (simp add: Fields_def)

text \<open>\<^verbatim>\<open>%q\<close>, of a string whose bytes beyond ASCII are printable characters.\<close>

definition hex_digit :: "nat \<Rightarrow> char" where
  "hex_digit n = ''0123456789abcdef'' ! n"

definition quoted_char :: "char \<Rightarrow> string" where
  "quoted_char c = (let n = (of_char c :: nat) in
     if n = 0x22 \<or> n = 0x5C then [CHR 0x5C, c]
     else if 7 \<le> n \<and> n \<le> 13 then [CHR 0x5C, ''abtnvfr'' ! (n - 7)]
     else if n < 32 \<or> n = 127 then [CHR 0x5C, CHR ''x'', hex_digit (n div 16), hex_digit (n mod 16)]
     else [c])"

definition quoted :: "string \<Rightarrow> string" where
  "quoted s = ''\"'' @ concat (map quoted_char s) @ ''\"''"

section \<open>Numbers\<close>

definition digit_char :: "nat \<Rightarrow> char" where
  "digit_char d = ''0123456789'' ! d"

definition is_digit :: "char \<Rightarrow> bool" where
  "is_digit c \<longleftrightarrow> 48 \<le> (of_char c :: nat) \<and> (of_char c :: nat) \<le> 57"

definition digit_val :: "char \<Rightarrow> nat" where
  "digit_val c = of_char c - 48"

lemma is_digit_char: "d < 10 \<Longrightarrow> is_digit (digit_char d)"
proof -
  assume "d < 10"
  then have "d \<in> {0, 1, 2, 3, 4, 5, 6, 7, 8, 9}" by auto
  then show ?thesis by (auto simp: is_digit_def digit_char_def)
qed

lemma digit_val_char: "d < 10 \<Longrightarrow> digit_val (digit_char d) = d"
proof -
  assume "d < 10"
  then have "d \<in> {0, 1, 2, 3, 4, 5, 6, 7, 8, 9}" by auto
  then show ?thesis by (auto simp: digit_val_def digit_char_def)
qed

fun utoa :: "nat \<Rightarrow> string" where
  "utoa n = (if n < 10 then [digit_char n] else utoa (n div 10) @ [digit_char (n mod 10)])"

declare utoa.simps [simp del]

lemma utoa_eval:
  "utoa (numeral k) = (if numeral k < (10::nat) then [digit_char (numeral k)]
    else utoa (numeral k div 10) @ [digit_char (numeral k mod 10)])"
  by (rule utoa.simps)

lemma utoa_digit: "d < 10 \<Longrightarrow> utoa d = [digit_char d]"
  by (simp add: utoa.simps [of d])

text \<open>\<^verbatim>\<open>strconv.Itoa\<close>, and \<^verbatim>\<open>%d\<close>.\<close>

definition itoa :: "int \<Rightarrow> string" where
  "itoa i = (if i < 0 then CHR ''-'' # utoa (nat (- i)) else utoa (nat i))"

lemmas itoa_eval = itoa_def utoa_eval utoa_digit digit_char_def

definition digits_val :: "string \<Rightarrow> nat" where
  "digits_val = foldl (\<lambda>n c. 10 * n + digit_val c) 0"

lemma utoa_digits: "c \<in> set (utoa n) \<Longrightarrow> is_digit c"
proof (induction n rule: utoa.induct)
  case (1 n)
  then show ?case
    by (subst (asm) (2) utoa.simps) (auto simp: is_digit_char split: if_splits)
qed

lemma utoa_nonempty [simp]: "utoa n \<noteq> []"
  by (subst utoa.simps) simp

lemma digits_val_utoa [simp]: "digits_val (utoa n) = n"
proof (induction n rule: utoa.induct)
  case (1 n)
  show ?case
  proof (cases "n < 10")
    case True
    then show ?thesis by (subst utoa.simps) (simp add: digits_val_def digit_val_char)
  next
    case False
    with 1 have "digits_val (utoa (n div 10)) = n div 10" by simp
    then have "foldl (\<lambda>n c. 10 * n + digit_val c) 0 (utoa (n div 10)) = n div 10"
      by (simp add: digits_val_def)
    with False show ?thesis
      by (subst utoa.simps) (simp add: digits_val_def digit_val_char)
  qed
qed

text \<open>
  \<^verbatim>\<open>strconv.ParseInt(s, 10, 64)\<close> and \<^verbatim>\<open>strconv.Atoi\<close>: an optional sign, then decimal digits
  only. A syntax error answers 0, an out-of-range number the nearest bound, as callers that
  drop the error see it.
\<close>

datatype num_error = ErrSyntax | ErrRange

definition max_int64 :: int where
  "max_int64 = 2 ^ 63 - 1"

definition parse_magnitude :: "bool \<Rightarrow> string \<Rightarrow> int \<times> num_error option" where
  "parse_magnitude neg ds =
     (if ds = [] \<or> \<not> list_all is_digit ds then (0, Some ErrSyntax)
      else let v = int (digits_val ds) in
        if neg then (if v > max_int64 + 1 then (- max_int64 - 1, Some ErrRange) else (- v, None))
        else (if v > max_int64 then (max_int64, Some ErrRange) else (v, None)))"

definition atoi :: "string \<Rightarrow> int \<times> num_error option" where
  "atoi s = (case s of [] \<Rightarrow> (0, Some ErrSyntax)
     | c # cs \<Rightarrow> if c = CHR ''-'' then parse_magnitude True cs
                else if c = CHR ''+'' then parse_magnitude False cs
                else parse_magnitude False s)"

lemma is_digit_not_sign: "is_digit c \<Longrightarrow> c \<noteq> CHR ''-'' \<and> c \<noteq> CHR ''+''"
  by (auto simp: is_digit_def)

lemma is_digit_not_space: "is_digit c \<Longrightarrow> \<not> is_space c"
  by (auto simp: is_digit_def is_space_def)

lemma atoi_digits:
  assumes "ds \<noteq> []" and "list_all is_digit ds"
  shows "atoi ds = parse_magnitude False ds"
  using assms by (cases ds) (auto simp: atoi_def dest: is_digit_not_sign)

lemma atoi_itoa: "0 \<le> n \<Longrightarrow> n \<le> max_int64 \<Longrightarrow> atoi (itoa n) = (n, None)"
  by (simp add: itoa_def atoi_digits parse_magnitude_def list_all_iff utoa_digits)

lemma itoa_nonempty [simp]: "itoa n \<noteq> []"
  by (simp add: itoa_def)

lemma itoa_digits: "0 \<le> n \<Longrightarrow> c \<in> set (itoa n) \<Longrightarrow> is_digit c"
  by (auto simp: itoa_def utoa_digits)

lemma atoi_range: "atoi s = (n, e) \<Longrightarrow> - max_int64 - 1 \<le> n \<and> n \<le> max_int64"
  by (auto simp: atoi_def parse_magnitude_def max_int64_def Let_def split: list.splits if_splits)

section \<open>Addresses: \<^verbatim>\<open>net.SplitHostPort\<close>\<close>

text \<open>
  The port is what follows the last colon. A host with a colon must stand in brackets, and a
  bracket may stand nowhere else; \<^const>\<open>None\<close> is the error.
\<close>

definition last_colon :: "string \<Rightarrow> (string \<times> string) option" where
  "last_colon s = map_option (\<lambda>(a, b). (rev b, rev a)) (cut_at (CHR '':'') (rev s))"

definition split_host_port :: "string \<Rightarrow> (string \<times> string) option" where
  "split_host_port s = (case last_colon s of None \<Rightarrow> None
     | Some (before, port) \<Rightarrow>
         if has_prefix s ''['' then
           (case cut_at (CHR '']'') s of None \<Rightarrow> None
            | Some (br, rest) \<Rightarrow>
                if rest \<noteq> CHR '':'' # port then None
                else if CHR ''['' \<in> set (tl s) \<or> CHR '']'' \<in> set rest then None
                else Some (tl br, port))
         else if CHR '':'' \<in> set before \<or> CHR ''['' \<in> set s \<or> CHR '']'' \<in> set s then None
         else Some (before, port))"

definition addr_port :: "string \<Rightarrow> string" where
  "addr_port s = (case split_host_port s of None \<Rightarrow> [] | Some (h, p) \<Rightarrow> p)"

definition join_host_port :: "string \<Rightarrow> string \<Rightarrow> string" where
  "join_host_port h p =
     (if CHR '':'' \<in> set h then ''['' @ h @ '']:'' @ p else h @ '':'' @ p)"

lemma last_colon_append: "CHR '':'' \<notin> set p \<Longrightarrow> last_colon (h @ CHR '':'' # p) = Some (h, p)"
  by (simp add: last_colon_def)

lemma not_bracket_prefix: "CHR ''['' \<notin> set h \<Longrightarrow> \<not> has_prefix (h @ CHR '':'' # p) ''[''"
  by (cases h) auto

lemma split_host_port_plain:
  assumes "CHR '':'' \<notin> set h" "CHR ''['' \<notin> set h" "CHR '']'' \<notin> set h"
    and "CHR '':'' \<notin> set p" "CHR ''['' \<notin> set p" "CHR '']'' \<notin> set p"
  shows "split_host_port (h @ CHR '':'' # p) = Some (h, p)"
  using assms by (simp add: split_host_port_def last_colon_append not_bracket_prefix del: has_prefix.simps)

lemma is_digit_plain: "is_digit c \<Longrightarrow> c \<noteq> CHR '':'' \<and> c \<noteq> CHR ''['' \<and> c \<noteq> CHR '']''"
  by (auto simp: is_digit_def)

text \<open>Every server of the program listens on loopback.\<close>

definition loopback :: "int \<Rightarrow> string" where
  "loopback n = ''127.0.0.1:'' @ itoa n"

lemma itoa_plain:
  "0 \<le> n \<Longrightarrow> CHR '':'' \<notin> set (itoa n) \<and> CHR ''['' \<notin> set (itoa n) \<and> CHR '']'' \<notin> set (itoa n)"
  using itoa_digits is_digit_plain by blast

lemma split_loopback: "0 \<le> n \<Longrightarrow> split_host_port (loopback n) = Some (''127.0.0.1'', itoa n)"
  using split_host_port_plain [of "''127.0.0.1''" "itoa n"] itoa_plain [of n]
  by (simp add: loopback_def)

lemma addr_port_loopback [simp]: "0 \<le> n \<Longrightarrow> addr_port (loopback n) = itoa n"
  by (simp add: addr_port_def split_loopback)

lemma no_colon_no_port: "CHR '':'' \<notin> set s \<Longrightarrow> split_host_port s = None"
proof -
  assume "CHR '':'' \<notin> set s"
  then have "cut_at (CHR '':'') (rev s) = None" by (simp add: cut_at_None)
  then show ?thesis by (simp add: split_host_port_def last_colon_def)
qed

section \<open>Association lists\<close>

lemma assoc_delete: "map_of (AList.delete k al) k' = (if k' = k then None else map_of al k')"
  by (simp add: AList.delete_conv')

lemma assoc_delete_distinct: "distinct (map fst al) \<Longrightarrow> distinct (map fst (AList.delete k al))"
  by (rule AList.distinct_delete)

lemma assoc_update: "map_of (AList.update k v al) k' = (if k' = k then Some v else map_of al k')"
  by (simp add: AList.update_conv')

lemma update_keys: "set (map fst (AList.update k v al)) = insert k (set (map fst al))"
  by (simp add: AList.dom_update)

lemma delete_keys: "set (map fst (AList.delete k al)) = set (map fst al) - {k}"
  by (simp add: AList.delete_keys)

section \<open>Transition systems\<close>

text \<open>
  The states a step relation reaches from its initial ones, and the contract of an invariant:
  it holds at the start and every step keeps it, so it holds of every reachable state.
\<close>

inductive reach :: "('s \<Rightarrow> bool) \<Rightarrow> ('s \<Rightarrow> 's \<Rightarrow> bool) \<Rightarrow> 's \<Rightarrow> bool"
  for init :: "'s \<Rightarrow> bool" and step :: "'s \<Rightarrow> 's \<Rightarrow> bool" where
  reach_init: "init s \<Longrightarrow> reach init step s"
| reach_step: "reach init step s \<Longrightarrow> step s t \<Longrightarrow> reach init step t"

lemma reach_steps: "step\<^sup>*\<^sup>* s t \<Longrightarrow> reach init step s \<Longrightarrow> reach init step t"
  by (induction rule: rtranclp_induct) (auto intro: reach_step)

locale invariant_of =
  fixes init :: "'s \<Rightarrow> bool" and step :: "'s \<Rightarrow> 's \<Rightarrow> bool" and inv :: "'s \<Rightarrow> bool"
  assumes inv_init: "init s \<Longrightarrow> inv s"
    and inv_step: "inv s \<Longrightarrow> step s t \<Longrightarrow> inv t"
begin

lemma reachable_inv: "reach init step s \<Longrightarrow> inv s"
  by (induction rule: reach.induct) (auto intro: inv_init inv_step)

lemma steps_inv: "step\<^sup>*\<^sup>* s t \<Longrightarrow> inv s \<Longrightarrow> inv t"
  by (induction rule: rtranclp_induct) (auto intro: inv_step)

end

section \<open>Encodings\<close>

text \<open>
  The contract of an encoding that a reader takes back: what is valid is decoded to itself, so
  two valid values with one code are one value.
\<close>

locale codec =
  fixes enc :: "'a \<Rightarrow> 'b" and dec :: "'b \<Rightarrow> 'a option" and valid :: "'a \<Rightarrow> bool"
  assumes dec_enc: "valid x \<Longrightarrow> dec (enc x) = Some x"
begin

lemma enc_eq: "valid x \<Longrightarrow> valid y \<Longrightarrow> enc x = enc y \<longleftrightarrow> x = y"
  using dec_enc by (metis option.inject)

lemma enc_inj: "inj_on enc {x. valid x}"
  by (rule inj_onI) (simp add: enc_eq)

end

definition dec_number :: "string \<Rightarrow> int option" where
  "dec_number s = (case atoi s of (n, None) \<Rightarrow> Some n | _ \<Rightarrow> None)"

interpretation number: codec itoa dec_number "\<lambda>n. 0 \<le> n \<and> n \<le> max_int64"
  by unfold_locales (simp add: dec_number_def atoi_itoa)

end
