(* ===== verification/Router.thy ===== *)
theory Router
  imports Prelude
begin

text \<open>
  \<^verbatim>\<open>internal/router/router.go\<close>: the route table as a tree of routers, the one reader and the one
  writer every route answers through, and the \<^verbatim>\<open>net/http\<close> multiplexer the table is served by.

  An action is a function of its parameters and of the state of the program, \<open>'s\<close>, which it
  returns updated; its result is a status, a body and an error message, as in the source. The
  context an action is given only cancels what it waits for, which is part of its environment.
  The JSON decoder is an argument: what \<^verbatim>\<open>respond\<close> distinguishes of its result is
  \<open>decoded\<close>. A Go map that the code iterates over is an association list, its order the
  order of that iteration.
\<close>

section \<open>Values, parameters and actions\<close>

datatype json = JNull | JBool bool | JNum int | JStr string | JArr "json list"
  | JObj "(string \<times> json) list"

type_synonym params = "string \<Rightarrow> json option"
type_synonym answer = "int \<times> json \<times> string"
type_synonym 's action = "params \<Rightarrow> 's \<Rightarrow> answer \<times> 's"

definition Str :: "params \<Rightarrow> string \<Rightarrow> string" where
  "Str params key = (case params key of Some (JStr s) \<Rightarrow> s | _ \<Rightarrow> [])"

lemma Str_simps [simp]:
  "Str Map.empty k = []"
  "Str (ps(k \<mapsto> JStr s)) k = s"
  "k \<noteq> k' \<Longrightarrow> Str (ps(k' \<mapsto> v)) k = Str ps k"
  by (simp_all add: Str_def)

definition obj :: "(string \<times> json) list \<Rightarrow> json" where
  "obj kvs = JObj (sort_key fst kvs)"

section \<open>The writer and the reader\<close>

record http_response =
  code :: int
  content_type :: string
  payload :: json

definition write_response :: "int \<Rightarrow> json \<Rightarrow> string \<Rightarrow> http_response" where
  "write_response status body errMsg =
     (let body = (if errMsg \<noteq> [] then JObj [(''error'', JStr errMsg)] else body)
      in \<lparr>code = status, content_type = ''application/json'', payload = body\<rparr>)"

definition Error_response :: "int \<Rightarrow> string \<Rightarrow> http_response" where
  "Error_response status errMsg = write_response status JNull errMsg"

text \<open>
  What the decoder answers: an object's members, \<^const>\<open>None\<close> for \<^verbatim>\<open>null\<close>; the end of an
  empty body; a body read past the cap; any other failure.
\<close>

datatype decoded = Decoded "params option" | EndOfBody | BodyTooLarge string | BadBody string

definition respond :: "'s action \<Rightarrow> decoded \<Rightarrow> string \<Rightarrow> 's \<Rightarrow> http_response \<times> 's" where
  "respond c dec pathId st = (case dec of
       BadBody err \<Rightarrow> (write_response 400 JNull (''invalid JSON: '' @ err), st)
     | BodyTooLarge err \<Rightarrow> (write_response 413 JNull err, st)
     | _ \<Rightarrow>
        (let params = (case dec of Decoded (Some ps) \<Rightarrow> ps | _ \<Rightarrow> Map.empty);
             params = (if pathId \<noteq> [] then params(''id'' \<mapsto> JStr pathId) else params);
             ((status, body, errMsg), st') = c params st
         in (write_response status body errMsg, st')))"

definition max_body :: nat where
  "max_body = push_bit 10 64"

section \<open>The route table\<close>

record 'c Router =
  Prefix :: string
  Routes :: "(string \<times> 'c) list"

definition route_key :: "string \<Rightarrow> string \<Rightarrow> string" where
  "route_key prefix pattern =
     (let (method, path) = (case cut_at (CHR '' '') pattern of Some mp \<Rightarrow> mp | None \<Rightarrow> (pattern, []))
      in method @ '' '' @ prefix @ path)"

fun add_routes :: "string \<Rightarrow> (string \<times> 'c) list \<Rightarrow> (string \<times> 'c) list \<Rightarrow> (string \<times> 'c) list" where
  "add_routes prefix held [] = held"
| "add_routes prefix held ((pattern, c) # rest) =
     add_routes prefix (AList.update (route_key prefix pattern) c held) rest"

definition add :: "'c Router \<Rightarrow> (string \<times> 'c) list \<Rightarrow> 'c Router" where
  "add r routes = r\<lparr>Routes := add_routes (Prefix r) (Routes r) routes\<rparr>"

definition New :: "string \<Rightarrow> (string \<times> 'c) list \<Rightarrow> 'c Router" where
  "New prefix routes = add \<lparr>Prefix = prefix, Routes = []\<rparr> routes"

definition Mount :: "'c Router \<Rightarrow> 'c Router \<Rightarrow> 'c Router" where
  "Mount r child = add r (Routes child)"

section \<open>The multiplexer\<close>

text \<open>
  \<^verbatim>\<open>http.ServeMux\<close>: a pattern is a method, or none, and a path whose segments are literals or
  wildcards; a path that ends in a slash is a prefix. A request is tried against the patterns of
  its own method first (\<^verbatim>\<open>HEAD\<close> also against those of \<^verbatim>\<open>GET\<close>), then those of none, a literal
  before a wildcard before a prefix at each segment. A path that only other methods serve
  answers 405. Paths are clean ones.
\<close>

datatype seg = Lit string | Wild string | Rest

definition parse_seg :: "string \<Rightarrow> seg" where
  "parse_seg s =
     (if s = [] then Rest
      else if hd s = CHR ''{'' \<and> last s = CHR ''}'' then Wild (butlast (tl s)) else Lit s)"

definition path_segs :: "string \<Rightarrow> string list" where
  "path_segs path = tl (split_at_char (CHR ''/'') path)"

definition parse_pattern :: "string \<Rightarrow> string \<times> seg list" where
  "parse_pattern pat =
     (case cut_at (CHR '' '') pat of
        Some (m, path) \<Rightarrow> (m, map parse_seg (path_segs path))
      | None \<Rightarrow> ([], map parse_seg (path_segs pat)))"

fun match_segs :: "seg list \<Rightarrow> string list \<Rightarrow> (string \<times> string) list option" where
  "match_segs [] [] = Some []"
| "match_segs (Rest # ps) xs = Some []"
| "match_segs (Lit l # ps) (x # xs) = (if l = x then match_segs ps xs else None)"
| "match_segs (Wild n # ps) (x # xs) =
     (if x \<noteq> [] then map_option (\<lambda>b. (n, x) # b) (match_segs ps xs) else None)"
| "match_segs _ _ = None"

fun seg_rank :: "seg \<Rightarrow> nat" where
  "seg_rank (Lit _) = 0" | "seg_rank (Wild _) = 1" | "seg_rank Rest = 2"

fun before_segs :: "seg list \<Rightarrow> seg list \<Rightarrow> bool" where
  "before_segs (p # ps) (q # qs) =
     (seg_rank p < seg_rank q \<or> (seg_rank p = seg_rank q \<and> before_segs ps qs))"
| "before_segs _ _ = False"

type_synonym 'h hit = "seg list \<times> 'h \<times> (string \<times> string) list"

fun best_match :: "(string \<times> 'h) list \<Rightarrow> string \<Rightarrow> string list \<Rightarrow> 'h hit option" where
  "best_match [] m path = None"
| "best_match ((pat, h) # rest) m path =
     (let (pm, segs) = parse_pattern pat; found = best_match rest m path in
      if pm \<noteq> m then found
      else case match_segs segs path of
          None \<Rightarrow> found
        | Some binds \<Rightarrow>
           (case found of None \<Rightarrow> Some (segs, h, binds)
            | Some (segs', h', binds') \<Rightarrow>
                if before_segs segs' segs then found else Some (segs, h, binds)))"

datatype 'h mux_result = Matched 'h "(string \<times> string) list" | MethodNotAllowed | NotFound

definition mux :: "(string \<times> 'h) list \<Rightarrow> string \<Rightarrow> string \<Rightarrow> 'h mux_result" where
  "mux table m path =
     (let segs = path_segs path;
          tries = [m] @ (if m = ''HEAD'' then [''GET''] else []) @ [[]];
          hits = List.map_filter (\<lambda>m'. best_match table m' segs) tries
      in case hits of
           (_, h, binds) # _ \<Rightarrow> Matched h binds
         | [] \<Rightarrow>
            if list_ex (\<lambda>(pat, _). match_segs (snd (parse_pattern pat)) segs \<noteq> None) table
            then MethodNotAllowed else NotFound)"

text \<open>
  \<^verbatim>\<open>Handler\<close>: the table as a multiplexer whose handlers are \<^const>\<open>respond\<close>, over bodies
  capped at \<^const>\<open>max_body\<close>; \<open>decode\<close> is the JSON decoder reading a body under that cap.
  The multiplexer's own refusals are not JSON.
\<close>

definition path_value :: "(string \<times> string) list \<Rightarrow> string \<Rightarrow> string" where
  "path_value binds name = (case map_of binds name of Some v \<Rightarrow> v | None \<Rightarrow> [])"

datatype served = Served http_response | PlainStatus int

definition Handler ::
  "(nat \<Rightarrow> string \<Rightarrow> decoded) \<Rightarrow> 's action Router \<Rightarrow> string \<Rightarrow> string \<Rightarrow> string \<Rightarrow> 's \<Rightarrow> served \<times> 's" where
  "Handler decode r method path body st =
     (case mux (Routes r) method path of
        Matched c binds \<Rightarrow>
          (let (resp, st') = respond c (decode max_body body) (path_value binds ''id'') st
           in (Served resp, st'))
      | MethodNotAllowed \<Rightarrow> (PlainStatus 405, st)
      | NotFound \<Rightarrow> (PlainStatus 404, st))"


section \<open>Lemmas on the table\<close>

definition has_method :: "string \<Rightarrow> bool" where
  "has_method pattern \<longleftrightarrow> CHR '' '' \<in> set pattern"

lemma route_key_cut:
  "cut_at (CHR '' '') pat = Some (m, p) \<Longrightarrow> route_key prefix pat = m @ CHR '' '' # prefix @ p"
  by (simp add: route_key_def)

lemma route_key_no_method:
  "\<not> has_method pat \<Longrightarrow> route_key prefix pat = pat @ CHR '' '' # prefix"
  by (simp add: route_key_def has_method_def cut_at_None [symmetric])

lemma has_method_route_key [simp]: "has_method (route_key prefix pat)"
  by (auto simp: has_method_def route_key_def split: option.splits)

lemma has_methodE:
  assumes "has_method pat"
  obtains m p where "pat = m @ CHR '' '' # p" and "CHR '' '' \<notin> set m"
proof -
  from assms obtain mp where "cut_at (CHR '' '') pat = Some mp"
    using cut_at_None [of "CHR '' ''" pat] by (auto simp: has_method_def)
  then have "pat = fst mp @ CHR '' '' # snd mp \<and> CHR '' '' \<notin> set (fst mp)"
    by (intro cut_at_Some) simp
  with that show ?thesis by blast
qed

lemma route_key_append [simp]:
  "CHR '' '' \<notin> set m \<Longrightarrow> route_key prefix (m @ CHR '' '' # p) = m @ CHR '' '' # prefix @ p"
  by (simp add: route_key_def)

lemma route_key_route_key: "route_key p (route_key q pat) = route_key (p @ q) pat"
proof (cases "has_method pat")
  case True
  then show ?thesis by (elim has_methodE) simp
next
  case False
  then have "CHR '' '' \<notin> set pat" by (simp add: has_method_def)
  with False show ?thesis by (simp add: route_key_no_method)
qed

lemma route_key_inj: "inj_on (route_key prefix) {pat. has_method pat}"
proof (rule inj_onI, simp)
  fix x y
  assume x: "has_method x" and y: "has_method y" and eq: "route_key prefix x = route_key prefix y"
  from x obtain m p where mp: "x = m @ CHR '' '' # p" "CHR '' '' \<notin> set m" by (rule has_methodE)
  from y obtain n q where nq: "y = n @ CHR '' '' # q" "CHR '' '' \<notin> set n" by (rule has_methodE)
  from eq mp nq have "m @ CHR '' '' # prefix @ p = n @ CHR '' '' # prefix @ q" by simp
  with mp(2) nq(2) have "Some (m, prefix @ p) = Some (n, prefix @ q)"
    by (metis cut_at_append)
  with mp nq show "x = y" by simp
qed

abbreviation keyed :: "string \<Rightarrow> (string \<times> 'c) list \<Rightarrow> (string \<times> 'c) list" where
  "keyed prefix \<equiv> map (\<lambda>(pat, c). (route_key prefix pat, c))"

lemma add_routes_append:
  "add_routes prefix held (xs @ ys) = add_routes prefix (add_routes prefix held xs) ys"
  by (induction prefix held xs rule: add_routes.induct) auto

lemma add_routes_lookup:
  "map_of (add_routes prefix held rs) = map_of held ++ map_of (rev (keyed prefix rs))"
  by (induction prefix held rs rule: add_routes.induct)
     (auto simp: AList.update_conv' map_add_def fun_eq_iff split: option.splits)

lemma add_routes_distinct:
  "distinct (map fst held) \<Longrightarrow> distinct (map fst (add_routes prefix held rs))"
  by (induction prefix held rs rule: add_routes.induct) (auto intro: distinct_update)

lemma map_of_rev: "distinct (map fst xs) \<Longrightarrow> map_of (rev xs) = map_of xs"
  by (rule map_of_inject_set [THEN iffD2]) (simp_all add: rev_map [symmetric])

lemma keyed_distinct:
  assumes "distinct (map fst rs)" and "\<forall>pat\<in>set (map fst rs). has_method pat"
  shows "distinct (map fst (keyed prefix rs))"
proof -
  have "map fst (keyed prefix rs) = map (route_key prefix) (map fst rs)" by (induction rs) auto
  moreover have "inj_on (route_key prefix) (set (map fst rs))"
    by (rule inj_on_subset [OF route_key_inj]) (use assms(2) in auto)
  ultimately show ?thesis using assms(1) by (simp only: distinct_map)
qed

lemma update_keyed:
  assumes "inj_on f (insert k (set (map fst al)))"
  shows "AList.update (f k) v (map (\<lambda>(a, b). (f a, b)) al) =
    map (\<lambda>(a, b). (f a, b)) (AList.update k v al)"
  using assms
proof (induction al)
  case (Cons x al)
  obtain a b where x: "x = (a, b)" by (cases x)
  from Cons.prems have "inj_on f (insert k (set (map fst al)))"
    by (rule inj_on_subset) auto
  with Cons have IH: "AList.update (f k) v (map (\<lambda>(a, b). (f a, b)) al) =
    map (\<lambda>(a, b). (f a, b)) (AList.update k v al)" by simp
  from Cons.prems have "f a = f k \<longleftrightarrow> a = k" by (auto simp: x inj_on_def)
  with IH show ?case by (auto simp: x)
qed simp

lemma add_routes_has_method:
  "\<forall>pat\<in>set (map fst held). has_method pat \<Longrightarrow>
   \<forall>pat\<in>set (map fst (add_routes prefix held rs)). has_method pat"
proof (induction prefix held rs rule: add_routes.induct)
  case (2 prefix held pattern c rest)
  then show ?case by (simp only: add_routes.simps update_keys) simp
qed simp

lemma add_routes_keyed:
  assumes "\<forall>pat\<in>set (map fst held). has_method pat"
  shows "keyed p (add_routes q held rs) = add_routes (p @ q) (keyed p held) rs"
  using assms
proof (induction q held rs rule: add_routes.induct)
  case (2 q held pattern c rest)
  have "inj_on (route_key p) (insert (route_key q pattern) (set (map fst held)))"
    by (rule inj_on_subset [OF route_key_inj]) (use 2(2) in auto)
  from update_keyed [OF this, of c]
  have up: "keyed p (AList.update (route_key q pattern) c held) =
      AList.update (route_key (p @ q) pattern) c (keyed p held)"
    by (simp add: route_key_route_key)
  have "\<forall>pat\<in>set (map fst (AList.update (route_key q pattern) c held)). has_method pat"
    using 2(2) by (simp only: update_keys) simp
  from 2(1) [OF this] show ?case by (simp add: up)
qed simp

lemma Routes_New [simp]: "Routes (New p rs) = add_routes p [] rs"
  by (simp add: New_def add_def)

lemma Prefix_New [simp]: "Prefix (New p rs) = p"
  by (simp add: New_def add_def)

lemma Prefix_Mount [simp]: "Prefix (Mount r child) = Prefix r"
  by (simp add: Mount_def add_def)

lemma New_distinct: "distinct (map fst (Routes (New p rs)))"
  by (simp add: add_routes_distinct)

lemma New_has_method: "\<forall>pat\<in>set (map fst (Routes (New p rs))). has_method pat"
  using add_routes_has_method [of "[]" p rs] by simp

lemma Routes_Mount_lookup:
  "map_of (Routes (Mount r (New q rs))) =
    map_of (Routes r) ++ map_of (Routes (New (Prefix r @ q) rs))"
proof -
  have "map_of (rev (keyed (Prefix r) (Routes (New q rs)))) = map_of (keyed (Prefix r) (Routes (New q rs)))"
    by (rule map_of_rev, rule keyed_distinct [OF New_distinct New_has_method])
  then show ?thesis
    using add_routes_keyed [of "[]" "Prefix r" q rs]
    by (simp add: Mount_def add_def add_routes_lookup del: add_routes.simps)
qed

section \<open>Properties\<close>

text \<open>Mounting a child router serves exactly the child's own routes behind the parent's
  prefix followed by the child's, beside the parent's: the table of a tree is the table of the
  flattened prefixes, whatever the parent already holds.\<close>

theorem Mount_is_concatenated_prefix:
  "map_of (Routes (Mount (New p ps) (New q qs))) =
     map_of (Routes (New p ps)) ++ map_of (Routes (New (p @ q) qs))"
  by (simp only: Routes_Mount_lookup Prefix_New)

text \<open>The table does not depend on the order in which Go iterates over the map of routes:
  two orders of the same routes, each naming its method, give the same table.\<close>

theorem New_order_irrelevant:
  assumes "distinct (map fst rs)" and "distinct (map fst rs')" and "set rs = set rs'"
    and "\<forall>pat\<in>set (map fst rs). has_method pat"
  shows "map_of (Routes (New prefix rs)) = map_of (Routes (New prefix rs'))"
proof -
  have m: "\<forall>pat\<in>set (map fst rs'). has_method pat"
    using assms(3,4) by auto
  have "map_of (keyed prefix rs) = map_of (keyed prefix rs')"
    using map_of_inject_set [OF keyed_distinct [OF assms(1,4)] keyed_distinct [OF assms(2) m]] assms(3)
    by auto
  then show ?thesis
    using map_of_rev [OF keyed_distinct [OF assms(1,4)]] map_of_rev [OF keyed_distinct [OF assms(2) m]]
    by (simp add: add_routes_lookup)
qed

theorem New_order_irrelevant_witness:
  "map_of (Routes (New ''/x'' [(''GET /a'', 1::nat), (''POST /a'', 2)])) =
   map_of (Routes (New ''/x'' [(''POST /a'', 2), (''GET /a'', 1)]))"
  by (rule New_order_irrelevant) (auto simp: has_method_def)

text \<open>C10: a request that is refused has no effect. When no route matches, or the body does not
  decode or is past the cap, the action is not run, the state is as it was and the status says
  which it was; the refusals of \<^verbatim>\<open>respond\<close> have the error shape.\<close>

theorem Handler_refuses_without_effect:
  "snd (Handler dec r m path body st) = st \<and>
     (case mux (Routes r) m path of
        NotFound \<Rightarrow> fst (Handler dec r m path body st) = PlainStatus 404
      | MethodNotAllowed \<Rightarrow> fst (Handler dec r m path body st) = PlainStatus 405
      | Matched c binds \<Rightarrow> (\<exists>err status. status \<in> {400, 413} \<and> err \<noteq> [] \<and>
          fst (Handler dec r m path body st) = Served (Error_response status err)))"
  if "dec max_body body = BadBody e \<or> dec max_body body = BodyTooLarge e \<and> e \<noteq> [] \<or>
    (\<forall>c binds. mux (Routes r) m path \<noteq> Matched c binds)"
proof (cases "mux (Routes r) m path")
  case (Matched c binds)
  with that have e: "dec max_body body = BadBody e \<or> dec max_body body = BodyTooLarge e \<and> e \<noteq> []"
    by simp
  then obtain status err where "status \<in> {400, 413::int}" "err \<noteq> []"
    and "respond c (dec max_body body) (path_value binds ''id'') st = (Error_response status err, st)"
    unfolding respond_def Error_response_def by (elim disjE conjE) fastforce+
  with Matched show ?thesis by (simp add: Handler_def) blast
qed (simp_all add: Handler_def)

theorem Handler_refuses_without_effect_witness:
  "snd (Handler (\<lambda>_ _. BadBody ''EOF'') (New ''/x'' [(''GET /a'', \<lambda>ps st. ((200, JNull, []), Suc st))])
     ''GET'' ''/x/a'' ''{'' 7) = 7"
  by (rule Handler_refuses_without_effect [THEN conjunct1, OF disjI1 [OF refl]])

text \<open>The id of the path is the id the action gets, whatever the body says, and an answer with
  an error message is that message alone, its body dropped.\<close>

theorem respond_path_id_and_error:
  assumes "pathId \<noteq> []" and "dec = EndOfBody \<or> (\<exists>ps. dec = Decoded ps)"
  shows "\<exists>ps. Str ps ''id'' = pathId \<and>
    (\<forall>key. key \<noteq> ''id'' \<longrightarrow> ps key = (case dec of Decoded (Some body) \<Rightarrow> body key | _ \<Rightarrow> None)) \<and>
    (\<forall>c st status body err st'. c ps st = ((status, body, err), st') \<longrightarrow>
       respond c dec pathId st = (\<lparr>code = status, content_type = ''application/json'',
         payload = (if err = [] then body else JObj [(''error'', JStr err)])\<rparr>, st'))"
proof -
  let ?body = "case dec of Decoded (Some ps) \<Rightarrow> ps | _ \<Rightarrow> Map.empty"
  let ?ps = "?body(''id'' \<mapsto> JStr pathId)"
  have "respond c dec pathId st = (let ((status, body, err), st') = c ?ps st in (write_response status body err, st'))"
    for c :: "'a action" and st
    using assms by (auto simp: respond_def Let_def split: option.split)
  then show ?thesis
    by (intro exI [of _ ?ps]) (auto simp: write_response_def split: decoded.split option.split)
qed

theorem respond_path_id_and_error_witness:
  "\<exists>ps. Str ps ''id'' = ''x'' \<and> ps ''port'' = Some (JNum 7)"
proof -
  let ?body = "[''id'' \<mapsto> JStr ''y'', ''port'' \<mapsto> JNum 7] :: params"
  have "''x'' \<noteq> []" and "Decoded (Some ?body) = EndOfBody \<or> (\<exists>ps. Decoded (Some ?body) = Decoded ps)"
    by simp_all
  from respond_path_id_and_error [OF this] show ?thesis
  proof (elim exE conjE)
    fix ps
    assume x: "Str ps ''id'' = ''x''" and b: "\<forall>key. key \<noteq> ''id'' \<longrightarrow>
      ps key = (case Decoded (Some ?body) of Decoded (Some body) \<Rightarrow> body key | _ \<Rightarrow> None)"
    from b [THEN spec, of "''port''"] have "ps ''port'' = Some (JNum 7)" by simp
    with x show ?thesis by (intro exI [of _ ps] conjI)
  qed
qed

end
