(* ===== verification/Tasks.thy ===== *)
theory Tasks
  imports Router
begin

text \<open>
  \<^verbatim>\<open>internal/tasks/tasks.go\<close> and the task half of \<^verbatim>\<open>exec.go\<close>: the task, the registry, and the
  sections the code runs under the registry's lock, as functions on the state.

  A task is a cell of \<open>cells\<close>, at the address the Go pointer has; the registry maps ids to these
  addresses, so a replaced task keeps its cell and its goroutine. \<open>cancelled\<close> says that the
  task's context is done, \<open>finished\<close> that its \<^verbatim>\<open>done\<close> channel is closed, and \<open>pc\<close> where its
  goroutine is. The kernel's answers to binding a socket are arguments.
\<close>

section \<open>The task\<close>

datatype State = StateNone | StateStarting | StateRunning | StateFailed | StateExited

fun state_name :: "State \<Rightarrow> string" where
  "state_name StateNone = []"
| "state_name StateStarting = ''starting''"
| "state_name StateRunning = ''running''"
| "state_name StateFailed = ''failed''"
| "state_name StateExited = ''exited''"

text \<open>An \<^verbatim>\<open>exec.Cmd\<close>: its argument vector, its directory and what is added to the environment.\<close>

record command =
  argv :: "string list"
  Dir :: string
  Env :: "string list"

text \<open>
  The work of a task is one of its four function fields. A \<^verbatim>\<open>Spawn\<close> answers the command for
  the port it is given, once its own preparation succeeded; a \<^verbatim>\<open>Child\<close> answers its command.
  \<open>NoWork\<close> is the zero task's.
\<close>

datatype work = NoWork | RunWork | ServerWork | SpawnWork "int \<Rightarrow> command" | ChildWork command

fun is_child :: "work \<Rightarrow> bool" where
  "is_child (SpawnWork _) = True"
| "is_child (ChildWork _) = True"
| "is_child _ = False"

text \<open>\<open>Attrs\<close> is the map the caller's function answers; no caller's reads its argument.\<close>

record Task =
  ID :: string
  Kind :: string
  Addr :: string
  State :: State
  Error :: string
  Attrs :: "(string \<times> string) list option"
  Work :: work
  Pid :: int
  has_ln :: bool

definition zero_task :: Task where
  "zero_task = \<lparr>ID = [], Kind = [], Addr = [], State = StateNone, Error = [], Attrs = None,
     Work = NoWork, Pid = 0, has_ln = False\<rparr>"

definition Port :: "Task \<Rightarrow> int" where
  "Port t = fst (atoi (addr_port (Addr t)))"

definition MarshalJSON :: "Task \<Rightarrow> json" where
  "MarshalJSON t =
     (let out = [(''id'', JStr (ID t)), (''addr'', JStr (Addr t)),
                 (''state'', JStr (state_name (State t))), (''error'', JStr (Error t))];
          out = (if Pid t \<noteq> 0 then AList.update ''pid'' (JNum (Pid t)) out else out);
          out = (case Attrs t of None \<Rightarrow> out
                 | Some attrs \<Rightarrow> fold (\<lambda>(k, v). AList.update k (JStr v)) attrs out)
      in obj out)"

section \<open>The state\<close>

datatype child = Live | Ended "string option"

datatype gpc =
    GRun
  | GChild int child | GWait int child
  | GPrep | GPoll int child | GServe int child
  | GRet "string option" | GRecorded "string option" | GReported | GCancelled | GDone

datatype file_kind = SocketFile nat | OtherFile

record cell =
  task :: Task
  cancelled :: bool
  finished :: bool
  ln_open :: bool
  pc :: gpc

record world =
  cells :: "nat \<Rightarrow> cell option"
  nextp :: nat
  reg :: "(string \<times> nat) list"
  Failed :: "string list"
  files :: "string \<Rightarrow> file_kind option"
  signalled :: "int list"

definition empty_world :: world where
  "empty_world = \<lparr>cells = Map.empty, nextp = 0, reg = [], Failed = [], files = Map.empty,
     signalled = []\<rparr>"

definition upd_cell :: "nat \<Rightarrow> (cell \<Rightarrow> cell) \<Rightarrow> world \<Rightarrow> world" where
  "upd_cell p f w = w\<lparr>cells := (cells w)(p := map_option f (cells w p))\<rparr>"

definition lookup :: "world \<Rightarrow> string \<Rightarrow> nat option" where
  "lookup w key = map_of (reg w) key"

section \<open>Binding\<close>

text \<open>
  What the kernel decides: the address a TCP listener gets, or the error; the error of a unix
  bind or of the change of mode, if any; whether a file can be removed; and the mode a new
  socket has under the umask.
\<close>

record kernel =
  listen_tcp :: "string \<Rightarrow> string + string"
  unix_error :: "string \<Rightarrow> string option"
  chmod_error :: "string \<Rightarrow> string option"
  removable :: "string \<Rightarrow> bool"
  socket_mode :: nat

text \<open>The mode \<^verbatim>\<open>0o600\<close>.\<close>

definition owner_only :: nat where
  "owner_only = 6 * 8 * 8"

definition listen_unix :: "kernel \<Rightarrow> string \<Rightarrow> world \<Rightarrow> string option \<times> world" where
  "listen_unix k path w =
     (if files w path \<noteq> None then (Some ''bind: address already in use'', w)
      else case unix_error k path of
          Some e \<Rightarrow> (Some e, w)
        | None \<Rightarrow> (None, w\<lparr>files := (files w)(path \<mapsto> SocketFile (socket_mode k))\<rparr>))"

definition listen :: "kernel \<Rightarrow> string \<Rightarrow> world \<Rightarrow> (string + string) \<times> world" where
  "listen k addr w =
     (if split_host_port addr \<noteq> None then (listen_tcp k addr, w)
      else let w = (case files w addr of
                 Some (SocketFile _) \<Rightarrow>
                   if removable k addr then w\<lparr>files := (files w)(addr := None)\<rparr> else w
               | _ \<Rightarrow> w);
               (err, w) = listen_unix k addr w
        in case err of
             Some e \<Rightarrow> (Inl e, w)
           | None \<Rightarrow>
              (case chmod_error k addr of
                 None \<Rightarrow> (Inr addr, w\<lparr>files := (files w)(addr \<mapsto> SocketFile owner_only)\<rparr>)
               | Some e \<Rightarrow> (Inl e, w\<lparr>files := (files w)(addr := None)\<rparr>)))"

section \<open>Start\<close>

definition prepare :: "Task \<Rightarrow> Task" where
  "prepare t = (case Work t of
       ServerWork \<Rightarrow> t\<lparr>Addr := cmp_or [] (Addr t) ''127.0.0.1:0''\<rparr>
     | SpawnWork _ \<Rightarrow> t\<lparr>Addr := cmp_or [] (Addr t) ''127.0.0.1:0'', State := StateStarting\<rparr>
     | ChildWork _ \<Rightarrow> t\<lparr>State := StateStarting\<rparr>
     | _ \<Rightarrow> t)"

definition bound_to :: "string \<Rightarrow> Task \<Rightarrow> Task" where
  "bound_to addr t =
     t\<lparr>has_ln := True, Addr := addr,
       ID := cmp_or [] (ID t) (hd (Kind t) # ''-'' @ cmp_or [] (addr_port addr) addr)\<rparr>"

definition named :: "Task \<Rightarrow> Task" where
  "named t = t\<lparr>ID := cmp_or [] (ID t) (Kind t), State := cmp_or StateNone (State t) StateRunning\<rparr>"

definition cancel :: "nat \<Rightarrow> world \<Rightarrow> world" where
  "cancel p = upd_cell p (\<lambda>c. c\<lparr>cancelled := True\<rparr>)"

definition new_cell :: "Task \<Rightarrow> cell" where
  "new_cell t = \<lparr>task = t, cancelled = False, finished = False, ln_open = has_ln t, pc = GRun\<rparr>"

definition register :: "Task \<Rightarrow> world \<Rightarrow> world" where
  "register t w =
     (let w = (case lookup w (ID t) of Some old \<Rightarrow> cancel old w | None \<Rightarrow> w); p = nextp w
      in w\<lparr>cells := (cells w)(p \<mapsto> new_cell t), nextp := Suc p,
           reg := AList.update (ID t) p (reg w)\<rparr>)"

definition Start :: "kernel \<Rightarrow> Task \<Rightarrow> world \<Rightarrow> (string + Task) \<times> world" where
  "Start k t w =
     (let t = prepare t in
      if Addr t \<noteq> [] then
        (case listen k (Addr t) w of
           (Inl err, w) \<Rightarrow> (Inl (''tasks: listen: '' @ err), w)
         | (Inr addr, w) \<Rightarrow> let t = named (bound_to addr t) in (Inr t, register t w))
      else let t = named t in (Inr t, register t w))"

section \<open>The other operations, as far as each holds the lock\<close>

definition setState :: "nat \<Rightarrow> State \<Rightarrow> string option \<Rightarrow> world \<Rightarrow> world" where
  "setState p st err = upd_cell p (\<lambda>c. c\<lparr>task := (task c)\<lparr>State := st,
     Error := (case err of Some e \<Rightarrow> e | None \<Rightarrow> Error (task c))\<rparr>\<rparr>)"

definition held :: "world \<Rightarrow> Task list" where
  "held w = List.map_filter (\<lambda>(key, p). map_option task (cells w p)) (sort_key fst (reg w))"

definition Select :: "string \<Rightarrow> world \<Rightarrow> Task list" where
  "Select kind w = filter (\<lambda>t. Kind t = kind) (held w)"

definition IsServing :: "int \<Rightarrow> world \<Rightarrow> bool" where
  "IsServing port w \<longleftrightarrow>
     list_ex (\<lambda>t. State t = StateRunning \<and> port > 0 \<and> Port t = port) (held w)"

definition unlist :: "string \<Rightarrow> world \<Rightarrow> world" where
  "unlist key w = w\<lparr>reg := AList.delete key (reg w)\<rparr>"

text \<open>What \<^verbatim>\<open>Wait\<close> does once the task's channel is closed: unlist it unless it was replaced.\<close>

definition wait_end :: "string \<Rightarrow> nat \<Rightarrow> world \<Rightarrow> Task \<times> world" where
  "wait_end key p w =
     (let w = (if lookup w key = Some p then unlist key w else w)
      in (case cells w p of Some c \<Rightarrow> task c | None \<Rightarrow> zero_task, w))"

text \<open>\<^verbatim>\<open>Stop\<close> up to the cancellation, and \<^verbatim>\<open>StopAll\<close> up to its loop.\<close>

definition stop_begin :: "string \<Rightarrow> world \<Rightarrow> nat option \<times> world" where
  "stop_begin key w = (lookup w key, unlist key w)"

definition stop_all_begin :: "world \<Rightarrow> nat list \<times> world" where
  "stop_all_begin w = (map snd (reg w), w\<lparr>reg := []\<rparr>)"

section \<open>The end of a task's goroutine\<close>

definition record_end :: "nat \<Rightarrow> string option \<Rightarrow> world \<Rightarrow> world" where
  "record_end p err w = (case err of
       Some e \<Rightarrow> setState p StateFailed (Some e) w
     | None \<Rightarrow> setState p StateExited None w)"

definition report_end :: "nat \<Rightarrow> string option \<Rightarrow> world \<Rightarrow> world" where
  "report_end p err w = (case (err, cells w p) of
       (Some e, Some c) \<Rightarrow>
         if \<not> cancelled c \<and> \<not> is_child (Work (task c)) \<and> Failed w = []
         then w\<lparr>Failed := [ID (task c) @ '': '' @ e]\<rparr> else w
     | _ \<Rightarrow> w)"

definition finish :: "nat \<Rightarrow> world \<Rightarrow> world" where
  "finish p = upd_cell p (\<lambda>c. c\<lparr>finished := True\<rparr>)"

definition close_ln :: "nat \<Rightarrow> world \<Rightarrow> world" where
  "close_ln p w = (case cells w p of
       None \<Rightarrow> w
     | Some c \<Rightarrow>
        let w = (if split_host_port (Addr (task c)) = None
                 then w\<lparr>files := (files w)(Addr (task c) := None)\<rparr> else w)
        in upd_cell p (\<lambda>c. c\<lparr>ln_open := False\<rparr>) w)"

section \<open>\<^verbatim>\<open>exec.go\<close>\<close>

text \<open>\<^verbatim>\<open>child\<close> publishes the pid and the state; a preset pid is kept.\<close>

definition publish :: "nat \<Rightarrow> int \<Rightarrow> world \<Rightarrow> world" where
  "publish p pid = upd_cell p (\<lambda>c. c\<lparr>task := (task c)\<lparr>Pid := cmp_or 0 (Pid (task c)) pid,
     State := StateRunning\<rparr>\<rparr>)"

text \<open>
  The groups a cancellation kills: the command's, and for a \<^verbatim>\<open>Child\<close> the group of a preset pid.
\<close>

definition kill_groups :: "Task \<Rightarrow> int \<Rightarrow> int list" where
  "kill_groups t pid = pid # (case Work t of
       ChildWork _ \<Rightarrow> if Pid t \<noteq> 0 \<and> Pid t \<noteq> pid then [Pid t] else []
     | _ \<Rightarrow> [])"

text \<open>
  \<^verbatim>\<open>fmt.Errorf\<close> with \<open>%w\<close>: an absent error prints as Go's marker for it. A task that
  \<^verbatim>\<open>spawn\<close> runs and whose command ends before its port accepts fails with this error.
\<close>

definition wrapped :: "string option \<Rightarrow> string" where
  "wrapped err = (case err of Some e \<Rightarrow> e | None \<Rightarrow> ''%!w(<nil>)'')"

definition exited_before_answering :: "string option \<Rightarrow> string" where
  "exited_before_answering err = ''exited before answering: '' @ wrapped err"

definition set_pc :: "nat \<Rightarrow> gpc \<Rightarrow> world \<Rightarrow> world" where
  "set_pc p g = upd_cell p (\<lambda>c. c\<lparr>pc := g\<rparr>)"

section \<open>Reads after writes\<close>

lemma cells_upd_cell [simp]: "cells (upd_cell p f w) q = (if q = p then map_option f (cells w p) else cells w q)"
  by (simp add: upd_cell_def)

lemma upd_cell_frame [simp]:
  "reg (upd_cell p f w) = reg w" "nextp (upd_cell p f w) = nextp w"
  "Failed (upd_cell p f w) = Failed w" "files (upd_cell p f w) = files w"
  "signalled (upd_cell p f w) = signalled w"
  by (simp_all add: upd_cell_def)

lemmas cell_defs = cancel_def finish_def setState_def publish_def set_pc_def

lemma lookup_update [reg_simps]:
  "lookup (w\<lparr>reg := AList.update key p (reg w)\<rparr>) id' = (if id' = key then Some p else lookup w id')"
  by (simp add: lookup_def assoc_update)

lemma lookup_unlist [reg_simps]: "lookup (unlist key w) id' = (if id' = key then None else lookup w id')"
  by (simp add: lookup_def unlist_def assoc_delete)

lemma unlist_frame [simp]:
  "cells (unlist key w) = cells w" "nextp (unlist key w) = nextp w"
  "Failed (unlist key w) = Failed w" "files (unlist key w) = files w"
  by (simp_all add: unlist_def)

lemma reg_register: "reg (register t w) = AList.update (ID t) (nextp w) (reg w)"
  by (simp add: register_def Let_def cancel_def split: option.split)

lemma nextp_register [simp]: "nextp (register t w) = Suc (nextp w)"
  by (simp add: register_def Let_def cancel_def split: option.split)

lemma Failed_register [simp]: "Failed (register t w) = Failed w"
  by (simp add: register_def Let_def cancel_def split: option.split)

lemma lookup_register [reg_simps]:
  "lookup (register t w) key = (if key = ID t then Some (nextp w) else lookup w key)"
  by (simp add: lookup_def reg_register assoc_update)

lemma cells_register:
  "cells (register t w) p =
     (if p = nextp w then Some (new_cell t)
      else if lookup w (ID t) = Some p then map_option (\<lambda>c. c\<lparr>cancelled := True\<rparr>) (cells w p)
      else cells w p)"
  by (simp add: register_def Let_def cancel_def split: option.split)

lemma listen_frame:
  "listen k a w = (r, w') \<Longrightarrow> cells w' = cells w \<and> reg w' = reg w \<and> nextp w' = nextp w \<and> Failed w' = Failed w"
  by (auto simp: listen_def listen_unix_def Let_def split: if_splits option.splits file_kind.splits)

text \<open>Between the bind and the change of its mode a socket has the mode of the umask.\<close>

lemma bound_before_owner_only:
  "files w path = None \<Longrightarrow> unix_error k path = None \<Longrightarrow>
     files (snd (listen_unix k path w)) path = Some (SocketFile (socket_mode k))"
  by (simp add: listen_unix_def)

lemma Port_loopback: "Addr t = loopback n \<Longrightarrow> 0 \<le> n \<Longrightarrow> n \<le> 65535 \<Longrightarrow> Port t = n"
  by (simp add: Port_def atoi_itoa max_int64_def)

lemma loopback_nonempty [simp]: "loopback n \<noteq> []"
  by (simp add: loopback_def)

lemma prepare_server:
  assumes "Work t = ServerWork \<or> (\<exists>f. Work t = SpawnWork f)"
  shows "Addr (prepare t) = cmp_or [] (Addr t) ''127.0.0.1:0''" and "ID (prepare t) = ID t"
    and "Kind (prepare t) = Kind t"
  using assms by (auto simp: prepare_def)

section \<open>The registry as its callers see it\<close>

text \<open>
  What the callers of the registry rely on: entering a task names it by its id until the id is
  entered or removed again, and nothing else changes what an id names. \<open>release\<close> is how a waiter
  takes a task off, unless its id names another by then.
\<close>

locale task_table =
  fixes find :: "'w \<Rightarrow> string \<Rightarrow> nat option" and enter :: "Task \<Rightarrow> 'w \<Rightarrow> 'w"
    and remove :: "string \<Rightarrow> 'w \<Rightarrow> 'w" and fresh :: "'w \<Rightarrow> nat"
  assumes find_enter: "find (enter t w) key = (if key = ID t then Some (fresh w) else find w key)"
    and find_remove: "find (remove key w) key' = (if key' = key then None else find w key')"
begin

lemma entered: "find (enter t w) (ID t) = Some (fresh w)"
  by (simp add: find_enter)

lemma removed: "find (remove key w) key = None"
  by (simp add: find_remove)

lemma enter_remove_other: "key \<noteq> ID t \<Longrightarrow> find (remove (ID t) (enter t w)) key = find w key"
  by (simp add: find_enter find_remove)

lemma release:
  assumes "w' = (if find w key = Some p then remove key w else w)"
  shows "find w' key \<noteq> Some p" and "key' \<noteq> key \<Longrightarrow> find w' key' = find w key'"
    and "find w key = Some q \<Longrightarrow> q \<noteq> p \<Longrightarrow> find w' key = Some q"
  using assms by (auto simp: find_remove)

end

interpretation table: task_table lookup register unlist nextp
  by unfold_locales (simp_all add: lookup_register lookup_unlist)

lemma wait_end_releases:
  assumes "wait_end key p w = (t, w')"
  shows "lookup w' key \<noteq> Some p" and "key' \<noteq> key \<Longrightarrow> lookup w' key' = lookup w key'"
    and "lookup w key = Some q \<Longrightarrow> q \<noteq> p \<Longrightarrow> lookup w' key = Some q"
    and "cells w' = cells w" and "cells w p = Some c \<Longrightarrow> t = task c"
proof -
  have w': "w' = (if lookup w key = Some p then unlist key w else w)"
    and t: "t = (case cells w' p of Some c \<Rightarrow> task c | None \<Rightarrow> zero_task)"
    using assms by (auto simp: wait_end_def Let_def)
  show "lookup w' key \<noteq> Some p" "key' \<noteq> key \<Longrightarrow> lookup w' key' = lookup w key'"
    "lookup w key = Some q \<Longrightarrow> q \<noteq> p \<Longrightarrow> lookup w' key = Some q"
    by (rule table.release [OF w'] | assumption)+
  show "cells w' = cells w" using w' by simp
  then show "cells w p = Some c \<Longrightarrow> t = task c" using t by simp
qed

section \<open>Properties\<close>

text \<open>A server or a spawned task that binds is reachable by the time \<^verbatim>\<open>Start\<close> returns: it is
  listed under its id, which without a caller's choice is its kind's initial and its port; the
  returned copy carries the bound address; an earlier task of that id is cancelled and no longer
  listed, and every other id still names what it named.\<close>

theorem Start_lists_bound_server:
  assumes work: "Work t = ServerWork \<or> (\<exists>f. Work t = SpawnWork f)" and kind: "Kind t = c # cs"
    and tcp: "split_host_port (cmp_or [] (Addr t) ''127.0.0.1:0'') \<noteq> None"
    and bind: "listen_tcp k (cmp_or [] (Addr t) ''127.0.0.1:0'') = Inr (loopback n)"
    and n: "0 < n" "n \<le> 65535"
  shows "\<exists>t' w'. Start k t w = (Inr t', w') \<and> ID t' = cmp_or [] (ID t) (c # ''-'' @ itoa n) \<and>
    Addr t' = loopback n \<and> Port t' = n \<and>
    lookup w' (ID t') = Some (nextp w) \<and> cells w' (nextp w) = Some (new_cell t') \<and>
    (\<forall>key. key \<noteq> ID t' \<longrightarrow> lookup w' key = lookup w key) \<and>
    (\<forall>q old. lookup w (ID t') = Some q \<longrightarrow> q \<noteq> nextp w \<longrightarrow> cells w q = Some old \<longrightarrow>
       cells w' q = Some (old\<lparr>cancelled := True\<rparr>))"
proof -
  let ?t = "named (bound_to (loopback n) (prepare t))"
  have "Addr (prepare t) \<noteq> []"
    using tcp by (auto simp: prepare_server [OF work] split_host_port_def last_colon_def)
  with tcp bind have st: "Start k t w = (Inr ?t, register ?t w)"
    by (simp add: Start_def Let_def listen_def prepare_server [OF work])
  have key: "ID ?t = cmp_or [] (ID t) (c # ''-'' @ itoa n)"
    using kind n by (simp add: named_def bound_to_def prepare_server [OF work] cmp_or_def)
  have addr: "Addr ?t = loopback n" by (simp add: named_def bound_to_def)
  with n have port: "Port ?t = n" by (simp add: Port_loopback)
  show ?thesis
  proof (intro exI [of _ ?t] exI [of _ "register ?t w"] conjI allI impI)
    show "lookup (register ?t w) (ID ?t) = Some (nextp w)"
      and "cells (register ?t w) (nextp w) = Some (new_cell ?t)"
      by (simp_all only: lookup_register cells_register if_True refl)
    show "lookup (register ?t w) key = lookup w key" if "key \<noteq> ID ?t" for key
      using that by (simp only: lookup_register if_False)
    show "cells (register ?t w) q = Some (old\<lparr>cancelled := True\<rparr>)"
      if "lookup w (ID ?t) = Some q" "q \<noteq> nextp w" "cells w q = Some old" for q old
      using that by (simp add: cells_register)
  qed (rule st key addr port)+
qed

theorem Start_lists_bound_server_witness:
  "\<exists>t' w'. Start \<lparr>listen_tcp = (\<lambda>a. Inr (loopback 8080)), unix_error = (\<lambda>_. None),
       chmod_error = (\<lambda>_. None), removable = (\<lambda>_. True), socket_mode = 493\<rparr>
     (zero_task\<lparr>Kind := ''http'', Addr := ''127.0.0.1:8080'', Work := ServerWork\<rparr>) empty_world = (Inr t', w') \<and>
     ID t' = ''h-8080''"
proof -
  let ?k = "\<lparr>listen_tcp = (\<lambda>a. Inr (loopback 8080)), unix_error = (\<lambda>_. None),
       chmod_error = (\<lambda>_. None), removable = (\<lambda>_. True), socket_mode = 493\<rparr>"
  let ?t = "zero_task\<lparr>Kind := ''http'', Addr := ''127.0.0.1:8080'', Work := ServerWork\<rparr>"
  have i: "itoa 8080 = ''8080''" by (simp add: itoa_def utoa_eval utoa_digit digit_char_def)
  have sp: "split_host_port ''127.0.0.1:8080'' \<noteq> None" by (simp add: split_host_port_def last_colon_def)
  have t: "Work ?t = ServerWork" "Kind ?t = CHR ''h'' # ''ttp''" "ID ?t = []"
      "cmp_or [] (Addr ?t) ''127.0.0.1:0'' = ''127.0.0.1:8080''"
    by (simp_all add: zero_task_def)
  have k: "listen_tcp ?k ''127.0.0.1:8080'' = Inr (loopback 8080)" by simp
  note th = Start_lists_bound_server [of ?t "CHR ''h''" "''ttp''" ?k 8080 empty_world, unfolded t,
      OF disjI1 [OF refl] refl sp k]
  then obtain t' w' where "Start ?k ?t empty_world = (Inr t', w')"
      and "ID t' = cmp_or [] [] (CHR ''h'' # ''-'' @ itoa 8080)"
    by (simp only: zero_less_numeral numeral_le_iff semiring_norm simp_thms) blast
  then show ?thesis by (intro exI [of _ t'] exI [of _ w']) (simp add: i)
qed



end
