(* ===== verification/TaskSteps.thy ===== *)
theory TaskSteps
  imports Tasks
begin

text \<open>
  The task registry under concurrency: the goroutine of each task, and any number of callers of
  \<^verbatim>\<open>Start\<close>, \<^verbatim>\<open>Wait\<close>, \<^verbatim>\<open>Stop\<close> and \<^verbatim>\<open>StopAll\<close>, interleaved at the points where the code takes the
  registry's lock, cancels a context or blocks on a channel.
\<close>

section \<open>A task's goroutine\<close>

text \<open>
  One rule per thing the goroutine, or the kernel on its behalf, can do. What a \<^verbatim>\<open>Run\<close> or a
  server returns is open, a recovered panic among it; so are the failures to build or start a
  command, how a process ends, and when a port accepts.
\<close>

fun live_child :: "gpc \<Rightarrow> int option" where
  "live_child (GChild pid Live) = Some pid"
| "live_child (GWait pid Live) = Some pid"
| "live_child (GPoll pid Live) = Some pid"
| "live_child (GServe pid Live) = Some pid"
| "live_child _ = None"

fun_cases live_childE: "live_child g = Some pid"

fun end_child :: "string option \<Rightarrow> gpc \<Rightarrow> gpc" where
  "end_child r (GChild pid _) = GChild pid (Ended r)"
| "end_child r (GWait pid _) = GWait pid (Ended r)"
| "end_child r (GPoll pid _) = GPoll pid (Ended r)"
| "end_child r (GServe pid _) = GServe pid (Ended r)"
| "end_child r g = g"

inductive gstep :: "nat \<Rightarrow> world \<Rightarrow> world \<Rightarrow> bool" for p :: nat where
  run_returns: "cells w p = Some c \<Longrightarrow> pc c = GRun \<Longrightarrow> Work (task c) \<in> {RunWork, ServerWork} \<Longrightarrow>
    gstep p w (set_pc p (GRet err) w)"
| child_fails: "cells w p = Some c \<Longrightarrow> pc c = GRun \<Longrightarrow> Work (task c) = ChildWork cmd \<Longrightarrow>
    gstep p w (set_pc p (GRet (Some e)) w)"
| child_starts: "cells w p = Some c \<Longrightarrow> pc c = GRun \<Longrightarrow> Work (task c) = ChildWork cmd \<Longrightarrow> pid > 0 \<Longrightarrow>
    gstep p w (set_pc p (GChild pid Live) w)"
| child_publishes: "cells w p = Some c \<Longrightarrow> pc c = GChild pid ch \<Longrightarrow>
    gstep p w (set_pc p (GWait pid ch) (publish p pid w))"
| child_waited: "cells w p = Some c \<Longrightarrow> pc c = GWait pid (Ended r) \<Longrightarrow>
    gstep p w (set_pc p (GRet r) w)"
| spawn_releases: "cells w p = Some c \<Longrightarrow> pc c = GRun \<Longrightarrow> Work (task c) = SpawnWork f \<Longrightarrow>
    gstep p w (set_pc p GPrep (close_ln p w))"
| spawn_unprepared: "cells w p = Some c \<Longrightarrow> pc c = GPrep \<Longrightarrow> gstep p w (set_pc p (GRet (Some e)) w)"
| spawn_starts: "cells w p = Some c \<Longrightarrow> pc c = GPrep \<Longrightarrow> pid > 0 \<Longrightarrow>
    gstep p w (set_pc p (GPoll pid Live) w)"
| spawn_fails: "cells w p = Some c \<Longrightarrow> pc c = GPrep \<Longrightarrow>
    gstep p w (set_pc p (GPoll 0 (Ended (Some e))) w)"
| poll_accepts: "cells w p = Some c \<Longrightarrow> pc c = GPoll pid ch \<Longrightarrow>
    gstep p w (set_pc p (GServe pid ch) (setState p StateRunning None w))"
| poll_exited: "cells w p = Some c \<Longrightarrow> pc c = GPoll pid (Ended r) \<Longrightarrow>
    gstep p w (set_pc p (GRet (Some (exited_before_answering r))) w)"
| serve_exited: "cells w p = Some c \<Longrightarrow> pc c = GServe pid (Ended r) \<Longrightarrow>
    gstep p w (set_pc p (GRet r) w)"
| process_ends: "cells w p = Some c \<Longrightarrow> live_child (pc c) = Some pid \<Longrightarrow>
    gstep p w (set_pc p (end_child r (pc c)) w)"
| process_killed: "cells w p = Some c \<Longrightarrow> live_child (pc c) = Some pid \<Longrightarrow> cancelled c \<Longrightarrow>
    gstep p w (set_pc p (end_child (Some ''signal: killed'') (pc c))
      (w\<lparr>signalled := kill_groups (task c) pid @ signalled w\<rparr>))"
| records: "cells w p = Some c \<Longrightarrow> pc c = GRet err \<Longrightarrow>
    gstep p w (set_pc p (GRecorded err) (record_end p err w))"
| reports: "cells w p = Some c \<Longrightarrow> pc c = GRecorded err \<Longrightarrow>
    gstep p w (set_pc p GReported (report_end p err w))"
| cancels: "cells w p = Some c \<Longrightarrow> pc c = GReported \<Longrightarrow>
    gstep p w (set_pc p GCancelled (cancel p w))"
| closes: "cells w p = Some c \<Longrightarrow> pc c = GCancelled \<Longrightarrow>
    gstep p w (set_pc p GDone (finish p w))"
| listener_closes: "cells w p = Some c \<Longrightarrow> cancelled c \<Longrightarrow> ln_open c \<Longrightarrow>
    gstep p w (close_ln p w)"

section \<open>The callers\<close>

datatype cpc = CIdle
  | CWait string | CWaiting string nat | CWaited Task
  | CStop string | CStopping nat | CStopWait nat | CStopped "nat option"
  | CAll | CAllNext "nat list" "nat list" | CAllWait "nat list" nat "nat list" | CAllDone "nat list"

type_synonym system = "world \<times> (nat \<Rightarrow> cpc)"

text \<open>
  The first list of \<open>CAllNext\<close> and \<open>CAllWait\<close> is the copy of the registry that \<^verbatim>\<open>StopAll\<close> took,
  the last what its loop has still to visit, in any order.
\<close>

inductive cstep :: "system \<Rightarrow> system \<Rightarrow> bool" where
  call_start: "k i = CIdle \<Longrightarrow> Start kern t w = (Inr t', w') \<Longrightarrow> Kind t \<noteq> [] \<Longrightarrow> Work t \<noteq> NoWork \<Longrightarrow>
    State t = StateNone \<Longrightarrow> Error t = [] \<Longrightarrow> cstep (w, k) (w', k)"
| call_start_fails: "k i = CIdle \<Longrightarrow> Start kern t w = (Inl e, w') \<Longrightarrow> cstep (w, k) (w', k)"
| call_wait: "k i = CIdle \<Longrightarrow> cstep (w, k) (w, k(i := CWait key))"
| wait_unknown: "k i = CWait key \<Longrightarrow> lookup w key = None \<Longrightarrow>
    cstep (w, k) (w, k(i := CWaited zero_task))"
| wait_known: "k i = CWait key \<Longrightarrow> lookup w key = Some p \<Longrightarrow>
    cstep (w, k) (w, k(i := CWaiting key p))"
| wait_ends: "k i = CWaiting key p \<Longrightarrow> cells w p = Some c \<Longrightarrow> finished c \<Longrightarrow>
    wait_end key p w = (t, w') \<Longrightarrow> cstep (w, k) (w', k(i := CWaited t))"
| call_stop: "k i = CIdle \<Longrightarrow> cstep (w, k) (w, k(i := CStop key))"
| stop_unknown: "k i = CStop key \<Longrightarrow> stop_begin key w = (None, w') \<Longrightarrow>
    cstep (w, k) (w', k(i := CStopped None))"
| stop_known: "k i = CStop key \<Longrightarrow> stop_begin key w = (Some p, w') \<Longrightarrow>
    cstep (w, k) (w', k(i := CStopping p))"
| stop_cancels: "k i = CStopping p \<Longrightarrow> cstep (w, k) (cancel p w, k(i := CStopWait p))"
| stop_ends: "k i = CStopWait p \<Longrightarrow> cells w p = Some c \<Longrightarrow> finished c \<Longrightarrow>
    cstep (w, k) (w, k(i := CStopped (Some p)))"
| call_stop_all: "k i = CIdle \<Longrightarrow> cstep (w, k) (w, k(i := CAll))"
| all_cleared: "k i = CAll \<Longrightarrow> stop_all_begin w = (live, w') \<Longrightarrow>
    cstep (w, k) (w', k(i := CAllNext live live))"
| all_cancels: "k i = CAllNext live left \<Longrightarrow> p \<in> set left \<Longrightarrow>
    cstep (w, k) (cancel p w, k(i := CAllWait live p (remove1 p left)))"
| all_waited: "k i = CAllWait live p left \<Longrightarrow> cells w p = Some c \<Longrightarrow> finished c \<Longrightarrow>
    cstep (w, k) (w, k(i := CAllNext live left))"
| all_ends: "k i = CAllNext live [] \<Longrightarrow> cstep (w, k) (w, k(i := CAllDone live))"
| returns: "k i \<in> {CWaited t, CStopped r, CAllDone live} \<Longrightarrow> cstep (w, k) (w, k(i := CIdle))"

text \<open>\<^verbatim>\<open>main\<close> receives the fatal error, which empties the channel.\<close>

inductive step :: "system \<Rightarrow> system \<Rightarrow> bool" where
  goroutine: "gstep p w w' \<Longrightarrow> step (w, k) (w', k)"
| caller: "cstep s s' \<Longrightarrow> step s s'"
| failed_received: "step (w, k) (w\<lparr>Failed := []\<rparr>, k)"

definition initial :: "system \<Rightarrow> bool" where
  "initial s \<longleftrightarrow> (\<exists>fs. s = (empty_world\<lparr>files := fs\<rparr>, \<lambda>_. CIdle))"

end
