(* ===== verification/TaskInv.thy ===== *)
theory TaskInv
  imports TaskSteps
begin

text \<open>
  The invariant of the interleaved registry: what holds of every task and of every caller, how a
  step may change a task, and that each step keeps the invariant.
\<close>

section \<open>The invariant\<close>

fun ending :: "gpc \<Rightarrow> bool" where
  "ending (GRecorded _) = True" | "ending GReported = True" | "ending GCancelled = True"
| "ending GDone = True" | "ending _ = False"

fun pc_work :: "gpc \<Rightarrow> work \<Rightarrow> bool" where
  "pc_work (GChild _ _) wk = (\<exists>c. wk = ChildWork c)"
| "pc_work (GWait _ _) wk = (\<exists>c. wk = ChildWork c)"
| "pc_work GPrep wk = (\<exists>f. wk = SpawnWork f)"
| "pc_work (GPoll _ _) wk = (\<exists>f. wk = SpawnWork f)"
| "pc_work (GServe _ _) wk = (\<exists>f. wk = SpawnWork f)"
| "pc_work _ wk = (wk \<noteq> NoWork)"

fun pc_state :: "gpc \<Rightarrow> State \<Rightarrow> bool" where
  "pc_state (GWait _ _) st = (st = StateRunning)"
| "pc_state (GServe _ _) st = (st = StateRunning)"
| "pc_state (GChild _ _) st = (st = StateStarting)"
| "pc_state GPrep st = (st = StateStarting)"
| "pc_state (GPoll _ _) st = (st = StateStarting)"
| "pc_state GRun st = (st = StateStarting \<or> st = StateRunning)"
| "pc_state (GRet _) st = (st = StateStarting \<or> st = StateRunning)"
| "pc_state (GRecorded None) st = (st = StateExited)"
| "pc_state (GRecorded (Some e)) st = (st = StateFailed)"
| "pc_state _ st = (st = StateFailed \<or> st = StateExited)"

definition cell_ok :: "cell \<Rightarrow> bool" where
  "cell_ok c \<longleftrightarrow>
     (finished c \<longleftrightarrow> pc c = GDone) \<and>
     (pc c \<in> {GCancelled, GDone} \<longrightarrow> cancelled c) \<and>
     pc_work (pc c) (Work (task c)) \<and> pc_state (pc c) (State (task c)) \<and>
     (pc c = GRun \<and> is_child (Work (task c)) \<longrightarrow> State (task c) = StateStarting) \<and>
     (State (task c) \<noteq> StateFailed \<longrightarrow> Error (task c) = []) \<and>
     (\<forall>e. pc c = GRecorded (Some e) \<longrightarrow> Error (task c) = e) \<and>
     (State (task c) = StateStarting \<longrightarrow> is_child (Work (task c)))"

fun stopping :: "cpc \<Rightarrow> nat \<Rightarrow> bool" where
  "stopping (CStopping q) p = (p = q)"
| "stopping (CAllNext live left) p = (p \<in> set left)"
| "stopping (CAllWait live q left) p = (p \<in> set left)"
| "stopping _ p = False"

definition is_finished :: "world \<Rightarrow> nat \<Rightarrow> bool" where
  "is_finished w p \<longleftrightarrow> (case cells w p of Some c \<Rightarrow> finished c | None \<Rightarrow> False)"

definition is_cancelled :: "world \<Rightarrow> nat \<Rightarrow> bool" where
  "is_cancelled w p \<longleftrightarrow> (case cells w p of Some c \<Rightarrow> cancelled c | None \<Rightarrow> False)"

fun caller_ok :: "world \<Rightarrow> cpc \<Rightarrow> bool" where
  "caller_ok w (CWaiting key p) = (\<exists>c. cells w p = Some c \<and> ID (task c) = key)"
| "caller_ok w (CStopping p) = (cells w p \<noteq> None)"
| "caller_ok w (CStopWait p) = is_cancelled w p"
| "caller_ok w (CStopped (Some p)) = is_finished w p"
| "caller_ok w (CWaited t) = (t = zero_task \<or> State t \<in> {StateFailed, StateExited})"
| "caller_ok w (CAllNext live left) = (set left \<subseteq> set live \<and>
     (\<forall>p\<in>set live. cells w p \<noteq> None \<and> (p \<in> set left \<or> is_finished w p)))"
| "caller_ok w (CAllWait live q left) = (is_cancelled w q \<and> set left \<subseteq> set live \<and>
     (\<forall>p\<in>set live. cells w p \<noteq> None \<and> (p = q \<or> p \<in> set left \<or> is_finished w p)))"
| "caller_ok w (CAllDone live) = (\<forall>p\<in>set live. is_finished w p)"
| "caller_ok w _ = True"

text \<open>The registry holds each task under its own id.\<close>

definition reg_ok :: "world \<Rightarrow> bool" where
  "reg_ok w \<longleftrightarrow> distinct (map fst (reg w)) \<and>
     (\<forall>key p. lookup w key = Some p \<longrightarrow> (\<exists>c. cells w p = Some c \<and> ID (task c) = key))"

definition cells_ok :: "world \<Rightarrow> bool" where
  "cells_ok w \<longleftrightarrow> (\<forall>p c. cells w p = Some c \<longrightarrow> p < nextp w \<and> cell_ok c)"

text \<open>No task is lost: one that is not listed is cancelled, or a caller is about to cancel it.\<close>

definition none_lost :: "system \<Rightarrow> bool" where
  "none_lost s \<longleftrightarrow> (\<forall>p c. cells (fst s) p = Some c \<and> \<not> cancelled c \<longrightarrow>
     lookup (fst s) (ID (task c)) = Some p \<or> (\<exists>i. stopping (snd s i) p))"

definition callers_ok :: "system \<Rightarrow> bool" where
  "callers_ok s \<longleftrightarrow> (\<forall>i. caller_ok (fst s) (snd s i))"

definition system_inv :: "system \<Rightarrow> bool" where
  "system_inv s \<longleftrightarrow>
     reg_ok (fst s) \<and> cells_ok (fst s) \<and> none_lost s \<and> callers_ok s \<and> length (Failed (fst s)) \<le> 1"

section \<open>How a cell may change\<close>

text \<open>
  What every step keeps of a cell: its identity, a cancellation, a closed channel, and what its
  \<^verbatim>\<open>Run\<close> returned; once the end is recorded, the whole task.
\<close>

definition returns_with :: "string option \<Rightarrow> cell \<Rightarrow> bool" where
  "returns_with err c \<longleftrightarrow> pc c = GRet err \<or>
     (ending (pc c) \<and> State (task c) = (if err = None then StateExited else StateFailed) \<and>
      (\<forall>e. err = Some e \<longrightarrow> Error (task c) = e))"

definition cell_grows :: "cell \<Rightarrow> cell \<Rightarrow> bool" where
  "cell_grows c c' \<longleftrightarrow>
     ID (task c') = ID (task c) \<and> Kind (task c') = Kind (task c) \<and> Work (task c') = Work (task c) \<and>
     Addr (task c') = Addr (task c) \<and> Attrs (task c') = Attrs (task c) \<and>
     (cancelled c \<longrightarrow> cancelled c') \<and> (finished c \<longrightarrow> finished c') \<and>
     (cell_ok c \<longrightarrow> cell_ok c') \<and>
     (\<forall>err. returns_with err c \<longrightarrow> returns_with err c') \<and>
     (cell_ok c \<and> ending (pc c) \<longrightarrow> ending (pc c') \<and> task c' = task c)"

definition grows :: "world \<Rightarrow> world \<Rightarrow> bool" where
  "grows w w' \<longleftrightarrow> (\<forall>p c. cells w p = Some c \<longrightarrow> (\<exists>c'. cells w' p = Some c' \<and> cell_grows c c'))"

lemma cell_grows_refl [simp, intro]: "cell_grows c c"
  by (simp add: cell_grows_def)

lemma cell_grows_trans: "cell_grows a b \<Longrightarrow> cell_grows b c \<Longrightarrow> cell_grows a c"
  by (auto simp: cell_grows_def)

lemma growsI: "(\<And>p c. cells w p = Some c \<Longrightarrow> \<exists>c'. cells w' p = Some c' \<and> cell_grows c c') \<Longrightarrow> grows w w'"
  by (simp add: grows_def)

lemma growsD: "grows w w' \<Longrightarrow> cells w p = Some c \<Longrightarrow> \<exists>c'. cells w' p = Some c' \<and> cell_grows c c'"
  by (simp add: grows_def)

lemma grows_refl [simp, intro]: "grows w w"
  by (auto simp: grows_def)

lemma grows_trans: "grows u v \<Longrightarrow> grows v w \<Longrightarrow> grows u w"
  unfolding grows_def by (meson cell_grows_trans)

lemma grows_same_cells: "cells w' = cells w \<Longrightarrow> grows w w'"
  by (auto simp: grows_def)

lemma cell_grows_cancel [simp]: "cell_grows c (c\<lparr>cancelled := True\<rparr>)"
  by (auto simp: cell_grows_def cell_ok_def returns_with_def)

lemma cancel_dom [simp]: "dom (cells (cancel p w)) = dom (cells w)"
  by (auto simp: cancel_def split: if_splits)

lemma grows_cancel: "grows w (cancel p w)"
  by (auto simp: grows_def cancel_def)

lemma end_child_simps [simp]:
  assumes "live_child g = Some pid"
  shows "pc_work (end_child r g) = pc_work g" "pc_state (end_child r g) = pc_state g"
    "end_child r g \<noteq> GDone" "end_child r g \<noteq> GCancelled" "g \<noteq> GDone" "g \<noteq> GCancelled" "\<not> ending g"
    "live_child (end_child r g) = None" "g \<noteq> GRun" "end_child r g \<noteq> GRun"
    "end_child r g \<noteq> GRecorded err" "g \<noteq> GRecorded err"
  using assms by (auto elim!: live_childE simp: fun_eq_iff)

text \<open>A step of a task's goroutine changes that task's cell alone, and only as a cell may change.\<close>

lemma gstep_cell:
  assumes "gstep p w w'"
  obtains c c' where "cells w p = Some c" and "cells w' = (cells w)(p \<mapsto> c')" and "cell_grows c c'"
    and "reg w' = reg w" and "nextp w' = nextp w"
  using assms
proof (cases rule: gstep.cases)
  case (reports c err)
  then show ?thesis
    by (intro that [of c "c\<lparr>pc := GReported\<rparr>"])
       (auto simp: cell_defs report_end_def cell_grows_def returns_with_def cell_ok_def fun_eq_iff
         split: option.splits)
next
  case (records c err)
  then show ?thesis
    by (cases err)
      (auto simp: cell_defs record_end_def cell_grows_def returns_with_def cell_ok_def fun_eq_iff intro!: that)
next
  case (process_killed c pid)
  then show ?thesis
    by (intro that [of c "c\<lparr>pc := end_child (Some ''signal: killed'') (pc c)\<rparr>"])
       (auto simp: cell_defs cell_grows_def returns_with_def cell_ok_def fun_eq_iff upd_cell_def)
next
  case (process_ends c pid r)
  then show ?thesis
    by (intro that [of c "c\<lparr>pc := end_child r (pc c)\<rparr>"])
       (auto simp: cell_defs cell_grows_def returns_with_def cell_ok_def fun_eq_iff)
next
  case (spawn_releases c f)
  then show ?thesis
    by (intro that [of c "c\<lparr>ln_open := False, pc := GPrep\<rparr>"])
       (auto simp: cell_defs close_ln_def cell_grows_def returns_with_def cell_ok_def fun_eq_iff upd_cell_def)
next
  case (listener_closes c)
  then show ?thesis
    by (intro that [of c "c\<lparr>ln_open := False\<rparr>"])
       (auto simp: cell_defs close_ln_def cell_grows_def returns_with_def cell_ok_def fun_eq_iff upd_cell_def)
qed (auto simp: cell_defs cell_grows_def returns_with_def cell_ok_def fun_eq_iff intro!: that)

lemma gstep_grows: "gstep p w w' \<Longrightarrow> grows w w'"
  by (erule gstep_cell) (auto simp: grows_def)

lemma gstep_dom: "gstep p w w' \<Longrightarrow> dom (cells w') = dom (cells w)"
  by (erule gstep_cell) auto

lemma gstep_frame: "gstep p w w' \<Longrightarrow> reg w' = reg w \<and> nextp w' = nextp w"
  by (erule gstep_cell) auto

lemma setState_Failed [simp]: "Failed (setState p st err w) = Failed w"
  by (simp add: setState_def)

lemma record_end_Failed [simp]: "Failed (record_end p err w) = Failed w"
  by (simp add: record_end_def split: option.split)

lemma cancel_frame [simp]: "reg (cancel p w) = reg w" "nextp (cancel p w) = nextp w"
  "Failed (cancel p w) = Failed w"
  by (simp_all add: cancel_def)

lemma close_ln_Failed [simp]: "Failed (close_ln p w) = Failed w"
  by (simp add: close_ln_def Let_def split: option.split)

text \<open>Only the report of an end writes the channel of fatal errors, and only when it is empty.\<close>

lemma gstep_Failed:
  assumes "gstep p w w'"
  shows "Failed w' = Failed w \<or> (\<exists>c e. Failed w = [] \<and> cells w p = Some c \<and> \<not> cancelled c \<and>
    \<not> is_child (Work (task c)) \<and> pc c = GRecorded (Some e) \<and> Failed w' = [ID (task c) @ '': '' @ e])"
  using assms
proof (cases rule: gstep.cases)
  case (reports c err)
  then show ?thesis by (cases err) (auto simp: set_pc_def report_end_def)
qed (auto simp: set_pc_def publish_def finish_def)

section \<open>Every step keeps the invariant\<close>

lemma is_finished_grows: "grows w w' \<Longrightarrow> is_finished w p \<Longrightarrow> is_finished w' p"
  by (auto simp: is_finished_def cell_grows_def dest!: growsD split: option.splits)

lemma is_cancelled_grows: "grows w w' \<Longrightarrow> is_cancelled w p \<Longrightarrow> is_cancelled w' p"
  by (auto simp: is_cancelled_def cell_grows_def dest!: growsD split: option.splits)

lemma known_grows: "grows w w' \<Longrightarrow> cells w p \<noteq> None \<Longrightarrow> cells w' p \<noteq> None"
  by (auto dest!: growsD)

lemma caller_ok_grows:
  assumes g: "grows w w'" and ok: "caller_ok w x"
  shows "caller_ok w' x"
proof -
  note keep = is_finished_grows [OF g] is_cancelled_grows [OF g] known_grows [OF g]
  show ?thesis
  proof (cases x)
    case (CWaiting key p)
    with ok g show ?thesis by (auto simp: cell_grows_def dest!: growsD)
  next
    case (CStopped r)
    with ok keep(1) show ?thesis by (cases r) simp_all
  next
    case (CAllNext live left)
    with ok have "p \<in> set live \<Longrightarrow> cells w p \<noteq> None \<and> (p \<in> set left \<or> is_finished w p)"
      and "set left \<subseteq> set live" for p by simp_all
    with CAllNext keep show ?thesis by fastforce
  next
    case (CAllWait live q left)
    with ok have "p \<in> set live \<Longrightarrow> cells w p \<noteq> None \<and> (p = q \<or> p \<in> set left \<or> is_finished w p)"
      and "is_cancelled w q" and "set left \<subseteq> set live" for p by simp_all
    with CAllWait keep show ?thesis by fastforce
  qed (use ok keep in simp_all)
qed

lemma reg_ok_grows:
  assumes g: "grows w w'" and reg: "reg w' = reg w" and ok: "reg_ok w"
  shows "reg_ok w'"
  unfolding reg_ok_def
proof (intro conjI allI impI)
  show "distinct (map fst (reg w'))" using ok reg by (simp add: reg_ok_def)
  fix key p
  assume "lookup w' key = Some p"
  with reg have "lookup w key = Some p" by (simp add: lookup_def)
  with ok obtain c where "cells w p = Some c" "ID (task c) = key" by (auto simp: reg_ok_def)
  with g show "\<exists>c'. cells w' p = Some c' \<and> ID (task c') = key"
    by (auto simp: cell_grows_def dest!: growsD)
qed

lemma cells_ok_grows:
  assumes "grows w w'" and "nextp w' = nextp w" and "dom (cells w') = dom (cells w)" and "cells_ok w"
  shows "cells_ok w'"
  unfolding cells_ok_def
proof (intro allI impI)
  fix p c'
  assume c': "cells w' p = Some c'"
  with assms(3) obtain c where c: "cells w p = Some c" by blast
  with assms(1) c' have "cell_grows c c'" by (auto dest: growsD)
  with c assms(2,4) show "p < nextp w' \<and> cell_ok c'"
    by (auto simp: cells_ok_def cell_grows_def)
qed

text \<open>A step that leaves the registry alone and drops no stop that is not carried out.\<close>

lemma inv_same_reg:
  assumes inv: "system_inv (w, k)" and g: "grows w w'" and reg: "reg w' = reg w"
    and nextp: "nextp w' = nextp w" and dom: "dom (cells w') = dom (cells w)"
    and failed: "length (Failed w') \<le> 1"
    and stops: "\<And>i p. stopping (k i) p \<Longrightarrow> stopping (k' i) p \<or> is_cancelled w' p"
    and callers: "\<And>i. caller_ok w' (k' i)"
  shows "system_inv (w', k')"
proof -
  have "none_lost (w', k')"
    unfolding none_lost_def fst_conv snd_conv
  proof (intro allI impI)
    fix p c'
    assume c': "cells w' p = Some c' \<and> \<not> cancelled c'"
    with dom obtain c where c: "cells w p = Some c" by blast
    with g c' have cg: "cell_grows c c'" by (auto dest: growsD)
    with c' have "\<not> cancelled c" by (auto simp: cell_grows_def)
    with c inv have "lookup w (ID (task c)) = Some p \<or> (\<exists>i. stopping (k i) p)"
      by (auto simp: system_inv_def none_lost_def)
    with cg reg stops c' show "lookup w' (ID (task c')) = Some p \<or> (\<exists>i. stopping (k' i) p)"
      by (fastforce simp: lookup_def cell_grows_def is_cancelled_def)
  qed
  moreover have "reg_ok w'" "cells_ok w'"
    using inv reg_ok_grows [OF g reg] cells_ok_grows [OF g nextp dom] by (auto simp: system_inv_def)
  ultimately show ?thesis
    using callers failed by (simp add: system_inv_def callers_ok_def)
qed

lemma gstep_inv: "gstep p w w' \<Longrightarrow> system_inv (w, k) \<Longrightarrow> system_inv (w', k)"
proof (rule inv_same_reg [where w = w and k = k])
  assume step: "gstep p w w'" and inv: "system_inv (w, k)"
  then show "length (Failed w') \<le> 1"
    using gstep_Failed [OF step] by (auto simp: system_inv_def)
  show "caller_ok w' (k i)" for i
    using inv gstep_grows [OF step] caller_ok_grows by (auto simp: system_inv_def callers_ok_def)
qed (simp_all add: gstep_frame gstep_dom gstep_grows)

lemma caller_moves:
  assumes inv: "system_inv (w, k)" and g: "grows w w'" and reg: "reg w' = reg w"
    and nextp: "nextp w' = nextp w" and dom: "dom (cells w') = dom (cells w)"
    and failed: "Failed w' = Failed w"
    and stops: "\<And>p. stopping (k i) p \<Longrightarrow> stopping x p \<or> is_cancelled w' p"
    and caller: "caller_ok w' x"
  shows "system_inv (w', k(i := x))"
proof (rule inv_same_reg [OF inv g reg nextp dom])
  show "length (Failed w') \<le> 1" using inv failed by (simp add: system_inv_def)
  show "stopping ((k(i := x)) j) p \<or> is_cancelled w' p" if "stopping (k j) p" for j p
    using stops that by auto
  show "caller_ok w' ((k(i := x)) j)" for j
    using caller inv caller_ok_grows [OF g] by (simp add: system_inv_def callers_ok_def)
qed

lemma caller_waits:
  assumes "system_inv (w, k)" and "\<And>p. stopping (k i) p \<Longrightarrow> stopping x p" and "caller_ok w x"
  shows "system_inv (w, k(i := x))"
  by (rule caller_moves [OF assms(1)]) (use assms(2,3) in auto)

lemma wait_end_world:
  "wait_end key p w = (t, w') \<Longrightarrow>
     w' = (if lookup w key = Some p then unlist key w else w) \<and>
     t = (case cells w p of Some c \<Rightarrow> task c | None \<Rightarrow> zero_task)"
  by (auto simp: wait_end_def Let_def split: if_splits)

text \<open>What a successful \<^verbatim>\<open>Start\<close> registers, and that a failed one registers nothing.\<close>

lemma Start_registers:
  assumes "Start kern t w = (Inr t', w')"
  obtains w1 where "w' = register t' w1" and "cells w1 = cells w" and "reg w1 = reg w"
    and "nextp w1 = nextp w" and "Failed w1 = Failed w"
    and "Work t' = Work t" and "Error t' = Error t" and "Kind t' = Kind t"
    and "State t' = cmp_or StateNone (if is_child (Work t) then StateStarting else State t) StateRunning"
    and "Attrs t' = Attrs t"
proof -
  let ?t = "prepare t"
  have prep: "Work ?t = Work t" "Error ?t = Error t" "Kind ?t = Kind t" "Attrs ?t = Attrs t"
    "State ?t = (if is_child (Work t) then StateStarting else State t)"
    by (cases "Work t"; simp add: prepare_def)+
  show ?thesis
  proof (cases "Addr ?t = []")
    case True
    with assms have "t' = named ?t" "w' = register t' w" by (auto simp: Start_def Let_def)
    with prep show ?thesis by (intro that [of w]) (auto simp: named_def)
  next
    case False
    obtain r w1 where l: "listen kern (Addr ?t) w = (r, w1)" by fastforce
    with assms False obtain addr where "t' = named (bound_to addr ?t)" "w' = register t' w1"
      by (auto simp: Start_def Let_def split: sum.splits)
    with prep listen_frame [OF l] show ?thesis
      by (intro that [of w1]) (auto simp: named_def bound_to_def)
  qed
qed

lemma Start_fails:
  assumes "Start kern t w = (Inl e, w')"
  shows "cells w' = cells w \<and> reg w' = reg w \<and> nextp w' = nextp w \<and> Failed w' = Failed w"
proof -
  obtain r w1 where l: "listen kern (Addr (prepare t)) w = (r, w1)" by fastforce
  with assms listen_frame [OF l] show ?thesis
    by (auto simp: Start_def Let_def split: sum.splits if_splits)
qed

lemma new_cell_ok:
  assumes "Work t \<noteq> NoWork" and "Error t = []"
    and "State t = (if is_child (Work t) then StateStarting else StateRunning)"
  shows "cell_ok (new_cell t)"
  using assms by (auto simp: cell_ok_def new_cell_def)

lemma register_grows:
  assumes "cells_ok w"
  shows "grows w (register t w)"
proof (rule growsI)
  fix p c
  assume c: "cells w p = Some c"
  with assms have "p \<noteq> nextp w" by (auto simp: cells_ok_def)
  with c show "\<exists>c'. cells (register t w) p = Some c' \<and> cell_grows c c'"
    by (auto simp: cells_register)
qed

lemma register_inv:
  assumes inv: "system_inv (w, k)" and new: "cell_ok (new_cell t)"
  shows "system_inv (register t w, k)"
proof -
  have ok: "cells_ok w" and rok: "reg_ok w" using inv by (auto simp: system_inv_def)
  note g = register_grows [OF ok, of t]
  have "reg_ok (register t w)"
    unfolding reg_ok_def
  proof (intro conjI allI impI)
    show "distinct (map fst (reg (register t w)))"
      using rok by (simp add: reg_register reg_ok_def distinct_update)
    fix key p
    assume l: "lookup (register t w) key = Some p"
    show "\<exists>c. cells (register t w) p = Some c \<and> ID (task c) = key"
    proof (cases "key = ID t")
      case True
      with l show ?thesis by (simp add: reg_simps cells_register new_cell_def)
    next
      case False
      with l rok obtain c where "cells w p = Some c" "ID (task c) = key"
        by (auto simp: reg_simps reg_ok_def)
      with g show ?thesis by (auto simp: cell_grows_def dest!: growsD)
    qed
  qed
  moreover have "cells_ok (register t w)"
    unfolding cells_ok_def
  proof (intro allI impI)
    fix p c
    assume "cells (register t w) p = Some c"
    with ok new cell_grows_cancel show "p < nextp (register t w) \<and> cell_ok c"
      by (fastforce simp: cells_register cells_ok_def cell_grows_def less_Suc_eq split: if_splits)
  qed
  moreover have "none_lost (register t w, k)"
    unfolding none_lost_def fst_conv snd_conv
  proof (intro allI impI)
    fix p c
    assume c: "cells (register t w) p = Some c \<and> \<not> cancelled c"
    show "lookup (register t w) (ID (task c)) = Some p \<or> (\<exists>i. stopping (k i) p)"
    proof (cases "p = nextp w")
      case True
      with c show ?thesis by (auto simp: cells_register reg_simps new_cell_def)
    next
      case False
      with c have old: "cells w p = Some c" "lookup w (ID t) \<noteq> Some p"
        by (auto simp: cells_register split: if_splits)
      with inv c have "lookup w (ID (task c)) = Some p \<or> (\<exists>i. stopping (k i) p)"
        by (auto simp: system_inv_def none_lost_def)
      with old show ?thesis by (auto simp: reg_simps)
    qed
  qed
  moreover have "callers_ok (register t w, k)"
    using inv caller_ok_grows [OF g] by (auto simp: system_inv_def callers_ok_def)
  ultimately show ?thesis using inv by (simp add: system_inv_def)
qed

lemma system_inv_cong:
  assumes "system_inv (w, k)" and "cells w' = cells w" and "reg w' = reg w" and "nextp w' = nextp w"
    and "length (Failed w') \<le> 1"
  shows "system_inv (w', k)"
  by (rule inv_same_reg [OF assms(1) grows_same_cells])
     (use assms caller_ok_grows [OF grows_same_cells] in \<open>auto simp: system_inv_def callers_ok_def\<close>)

text \<open>Taking a task off the list keeps the invariant when it is cancelled or its stop is taken on.\<close>

lemma unlist_inv:
  assumes inv: "system_inv (w, k)"
    and safe: "\<And>p. lookup w key = Some p \<Longrightarrow> is_cancelled w p \<or> stopping x p"
    and stops: "\<And>p. \<not> stopping (k i) p" and caller: "caller_ok w x"
  shows "system_inv (unlist key w, k(i := x))"
proof -
  have g: "grows w (unlist key w)" by (rule grows_same_cells) simp
  have "reg_ok (unlist key w)"
    using inv by (auto simp: system_inv_def reg_ok_def reg_simps unlist_def assoc_delete_distinct lookup_def assoc_delete)
  moreover have "cells_ok (unlist key w)"
    using inv by (simp add: system_inv_def cells_ok_def)
  moreover have "none_lost (unlist key w, k(i := x))"
    unfolding none_lost_def fst_conv snd_conv
  proof (intro allI impI)
    fix p c
    assume c: "cells (unlist key w) p = Some c \<and> \<not> cancelled c"
    with inv have "lookup w (ID (task c)) = Some p \<or> (\<exists>j. stopping (k j) p)"
      by (auto simp: system_inv_def none_lost_def)
    then show "lookup (unlist key w) (ID (task c)) = Some p \<or> (\<exists>j. stopping ((k(i := x)) j) p)"
    proof
      assume "lookup w (ID (task c)) = Some p"
      with safe [of p] c show ?thesis by (auto simp: reg_simps is_cancelled_def)
    next
      assume "\<exists>j. stopping (k j) p"
      then obtain j where "stopping (k j) p" ..
      with stops show ?thesis by (cases "j = i") auto
    qed
  qed
  moreover have "callers_ok (unlist key w, k(i := x))"
    using inv caller caller_ok_grows [OF g] by (auto simp: system_inv_def callers_ok_def)
  ultimately show ?thesis using inv by (simp add: system_inv_def)
qed

lemma clear_inv:
  assumes inv: "system_inv (w, k)" and i: "k i = CAll"
  shows "system_inv (w\<lparr>reg := []\<rparr>, k(i := CAllNext (map snd (reg w)) (map snd (reg w))))"
proof -
  let ?w = "w\<lparr>reg := []\<rparr>" and ?x = "CAllNext (map snd (reg w)) (map snd (reg w))"
  have g: "grows w ?w" by (rule grows_same_cells) simp
  have rok: "reg_ok w" using inv by (simp add: system_inv_def)
  have known: "cells w (snd e) \<noteq> None" if "e \<in> set (reg w)" for e
  proof -
    from that rok have "lookup w (fst e) = Some (snd e)"
      by (simp add: reg_ok_def lookup_def)
    with rok show ?thesis by (auto simp: reg_ok_def)
  qed
  have "none_lost (?w, k(i := ?x))"
    unfolding none_lost_def fst_conv snd_conv
  proof (intro allI impI)
    fix p c
    assume "cells ?w p = Some c \<and> \<not> cancelled c"
    with inv have "lookup w (ID (task c)) = Some p \<or> (\<exists>j. stopping (k j) p)"
      by (auto simp: system_inv_def none_lost_def)
    then show "lookup ?w (ID (task c)) = Some p \<or> (\<exists>j. stopping ((k(i := ?x)) j) p)"
    proof
      assume "lookup w (ID (task c)) = Some p"
      then have "(ID (task c), p) \<in> set (reg w)" by (auto simp: lookup_def dest: map_of_SomeD)
      then have "stopping ((k(i := ?x)) i) p" by force
      then show ?thesis by blast
    next
      assume "\<exists>j. stopping (k j) p"
      then obtain j where "stopping (k j) p" ..
      with i show ?thesis by (cases "j = i") auto
    qed
  qed
  moreover have "callers_ok (?w, k(i := ?x))"
    using inv known caller_ok_grows [OF g] by (auto simp: system_inv_def callers_ok_def)
  ultimately show ?thesis
    using inv by (simp add: system_inv_def reg_ok_def lookup_def cells_ok_def)
qed

lemma unlist_absent: "lookup w key = None \<Longrightarrow> unlist key w = w"
  by (simp add: unlist_def lookup_def map_of_eq_None_iff delete_idem image_iff)

lemma inv_lookup:
  "system_inv (w, k) \<Longrightarrow> lookup w key = Some p \<Longrightarrow> \<exists>c. cells w p = Some c \<and> ID (task c) = key"
  by (auto simp: system_inv_def reg_ok_def)

lemma inv_cell_ok: "system_inv (w, k) \<Longrightarrow> cells w p = Some c \<Longrightarrow> cell_ok c"
  by (auto simp: system_inv_def cells_ok_def)

lemma inv_caller: "system_inv (w, k) \<Longrightarrow> caller_ok w (k i)"
  by (simp add: system_inv_def callers_ok_def)

lemma call_start_inv:
  assumes inv: "system_inv (w, k)" and start: "Start kern t w = (Inr t', w')"
    and t: "Work t \<noteq> NoWork" "State t = StateNone" "Error t = []"
  shows "system_inv (w', k)"
proof -
  from start obtain w1 where w1: "w' = register t' w1" "cells w1 = cells w" "reg w1 = reg w"
      "nextp w1 = nextp w" "Failed w1 = Failed w"
    and t': "Work t' = Work t" "Error t' = Error t"
      "State t' = cmp_or StateNone (if is_child (Work t) then StateStarting else State t) StateRunning"
    by (auto elim: Start_registers)
  from inv w1 have "system_inv (w1, k)"
    by (intro system_inv_cong [OF inv]) (auto simp: system_inv_def)
  moreover have "cell_ok (new_cell t')"
    by (rule new_cell_ok) (use t' t in auto)
  ultimately show ?thesis using w1(1) by (simp add: register_inv)
qed

lemma wait_ends_inv:
  assumes inv: "system_inv (w, k)" and i: "k i = CWaiting key p" and c: "cells w p = Some c" "finished c"
    and wait: "wait_end key p w = (t, w')"
  shows "system_inv (w', k(i := CWaited t))"
proof -
  have fin: "pc c = GDone" "cancelled c" "State (task c) \<in> {StateFailed, StateExited}"
    using inv_cell_ok [OF inv c(1)] c(2) by (auto simp: cell_ok_def)
  have t: "t = task c" and w': "w' = (if lookup w key = Some p then unlist key w else w)"
    using wait_end_world [OF wait] c(1) by auto
  show ?thesis
  proof (cases "lookup w key = Some p")
    case True
    with fin i c w' t show ?thesis
      by (auto simp: is_cancelled_def intro!: unlist_inv [OF inv])
  next
    case False
    with fin i w' t show ?thesis by (auto intro!: caller_waits [OF inv])
  qed
qed

lemma all_cancels_inv:
  assumes inv: "system_inv (w, k)" and i: "k i = CAllNext live left" and p: "p \<in> set left"
  shows "system_inv (cancel p w, k(i := CAllWait live p (remove1 p left)))" (is "system_inv (?w, _)")
proof -
  have ok: "set left \<subseteq> set live"
    "q \<in> set live \<Longrightarrow> cells w q \<noteq> None \<and> (q \<in> set left \<or> is_finished w q)" for q
    using inv_caller [OF inv, of i] i by simp_all
  from ok p have "cells w p \<noteq> None" by auto
  then have c: "is_cancelled ?w p" by (auto simp: is_cancelled_def cancel_def)
  have "cells ?w q \<noteq> None \<and> (q = p \<or> q \<in> set (remove1 p left) \<or> is_finished ?w q)" if "q \<in> set live" for q
    using ok(2) [OF that] known_grows [OF grows_cancel] is_finished_grows [OF grows_cancel]
    by (cases "q = p") auto
  then have "caller_ok ?w (CAllWait live p (remove1 p left))"
    using c ok(1) set_remove1_subset [of p left] by auto
  moreover have "stopping (CAllWait live p (remove1 p left)) q \<or> is_cancelled ?w q" if "stopping (k i) q" for q
    using that i c by (cases "q = p") auto
  ultimately show ?thesis
    by (intro caller_moves [OF inv grows_cancel _ _ cancel_dom]) simp_all
qed

lemma cstep_inv:
  assumes "cstep (w, k) (w', k')" and inv: "system_inv (w, k)"
  shows "system_inv (w', k')"
  using assms(1)
proof (cases rule: cstep.cases)
  case (call_start i kern t t')
  then show ?thesis using call_start_inv [OF inv] by simp
next
  case (call_start_fails i kern t e)
  from Start_fails [OF this(3)] inv have "system_inv (w', k)"
    by (intro system_inv_cong [OF inv]) (simp_all add: system_inv_def)
  with call_start_fails show ?thesis by simp
next
  case (wait_known i key p)
  with inv_lookup [OF inv, of key p] show ?thesis by (auto intro!: caller_waits [OF inv])
next
  case (wait_ends i key p c t)
  then show ?thesis using wait_ends_inv [OF inv] by simp
next
  case (stop_unknown i key)
  then show ?thesis
    by (auto simp: stop_begin_def unlist_absent intro!: caller_waits [OF inv])
next
  case (stop_known i key p)
  then have "lookup w key = Some p" "w' = unlist key w" by (auto simp: stop_begin_def)
  with stop_known inv_lookup [OF inv, of key p] show ?thesis
    by (auto intro!: unlist_inv [OF inv])
next
  case (stop_cancels i p)
  then have "is_cancelled (cancel p w) p"
    using inv_caller [OF inv, of i] by (auto simp: is_cancelled_def cancel_def)
  with stop_cancels show ?thesis
    by (auto simp: grows_cancel simp del: cancel_dom intro!: caller_moves [OF inv] cancel_dom)
next
  case (stop_ends i p c)
  then show ?thesis by (auto simp: is_finished_def intro!: caller_waits [OF inv])
next
  case (all_cleared i live)
  then show ?thesis by (auto simp: stop_all_begin_def intro!: clear_inv [OF inv])
next
  case (all_cancels i live left p)
  then show ?thesis using all_cancels_inv [OF inv] by simp
next
  case (all_waited i live p left c)
  then have "is_finished w p" by (simp add: is_finished_def)
  with all_waited inv_caller [OF inv, of i] show ?thesis by (auto intro!: caller_waits [OF inv])
next
  case (all_ends i live)
  with inv_caller [OF inv, of i] show ?thesis by (auto intro!: caller_waits [OF inv])
qed (auto intro!: caller_waits [OF inv] split: if_splits)

lemma step_inv: "step s s' \<Longrightarrow> system_inv s \<Longrightarrow> system_inv s'"
proof (induction rule: step.induct)
  case (caller s s')
  obtain w k w' k' where "s = (w, k)" and "s' = (w', k')" by (cases s, cases s')
  with caller cstep_inv [of w k w' k'] show ?case by simp
next
  case (failed_received w k)
  then show ?case by (rule system_inv_cong) simp_all
qed (auto intro: gstep_inv)

lemma initial_inv: "initial s \<Longrightarrow> system_inv s"
  by (auto simp: initial_def empty_world_def system_inv_def reg_ok_def lookup_def cells_ok_def
    none_lost_def callers_ok_def)

interpretation tasks: invariant_of initial step system_inv
  by unfold_locales (auto intro: initial_inv step_inv)

abbreviation reachable :: "system \<Rightarrow> bool" where
  "reachable \<equiv> reach initial step"

end
