(* ===== verification/TaskEnds.thy ===== *)
theory TaskEnds
  imports TaskInv
begin

text \<open>
  How tasks end: no step loses what a task has become, each goroutine is never stuck and comes to its
  end, so do the callers that wait for it, and what the registry answers in between.
\<close>

section \<open>Facts the properties rest on\<close>

lemma reachable_system_inv: "reachable (w, k) \<Longrightarrow> system_inv (w, k)"
  by (rule tasks.reachable_inv)

lemma cstep_grows:
  assumes "cstep (w, k) (w', k')" and inv: "system_inv (w, k)"
  shows "grows w w'"
  using assms(1)
proof (cases rule: cstep.cases)
  case (call_start i kern t t')
  then obtain w1 where w1: "w' = register t' w1" "cells w1 = cells w" "nextp w1 = nextp w"
    by (auto elim: Start_registers)
  have "cells_ok w1" using inv w1 by (simp add: system_inv_def cells_ok_def)
  then show ?thesis using w1 by (auto intro: grows_trans [OF grows_same_cells register_grows])
next
  case (call_start_fails i kern t e)
  then show ?thesis by (auto dest: Start_fails intro: grows_same_cells)
next
  case (wait_ends i key p c t)
  then show ?thesis by (auto dest!: wait_end_world intro: grows_same_cells)
next
  case (stop_unknown i key)
  then show ?thesis by (auto simp: stop_begin_def intro: grows_same_cells)
next
  case (stop_known i key p)
  then show ?thesis by (auto simp: stop_begin_def intro: grows_same_cells)
next
  case (all_cleared i live)
  then show ?thesis by (auto simp: stop_all_begin_def intro: grows_same_cells)
qed (auto intro: grows_cancel)

lemma step_grows:
  assumes "step s s'" and "system_inv s"
  shows "grows (fst s) (fst s')"
  using assms
proof (cases rule: step.cases)
  case (goroutine p w w' k)
  then show ?thesis by (auto intro: gstep_grows)
next
  case caller
  then show ?thesis using cstep_grows [of "fst s" "snd s" "fst s'" "snd s'"] assms(2) by simp
next
  case (failed_received w k)
  then show ?thesis by (auto intro: grows_same_cells)
qed

lemma steps_grow:
  assumes "step\<^sup>*\<^sup>* s s'" and "system_inv s"
  shows "grows (fst s) (fst s')"
  using assms(1)
proof (induction rule: rtranclp_induct)
  case (step u v)
  have "system_inv u" using tasks.steps_inv [OF step.hyps(1) assms(2)] .
  with step show ?case by (meson grows_trans step_grows)
qed simp

lemma pc_state_final: "pc_state g st \<Longrightarrow> st \<in> {StateFailed, StateExited} \<Longrightarrow> ending g"
  by (induction g st rule: pc_state.induct) auto

lemma final_is_ending:
  "cell_ok c \<Longrightarrow> State (task c) \<in> {StateFailed, StateExited} \<Longrightarrow> ending (pc c)"
  unfolding cell_ok_def by (blast intro: pc_state_final)

lemma finished_facts:
  assumes "cell_ok c" and "finished c"
  shows "pc c = GDone" and "cancelled c" and "State (task c) \<in> {StateFailed, StateExited}"
  using assms by (auto simp: cell_ok_def)

subsection \<open>Every goroutine comes to its end\<close>

fun child_rank :: "child \<Rightarrow> nat" where
  "child_rank Live = 1" | "child_rank (Ended r) = 0"

fun pc_rank :: "gpc \<Rightarrow> nat" where
  "pc_rank GRun = 14" | "pc_rank GPrep = 12"
| "pc_rank (GChild _ ch) = 10 + child_rank ch" | "pc_rank (GPoll _ ch) = 10 + child_rank ch"
| "pc_rank (GWait _ ch) = 8 + child_rank ch" | "pc_rank (GServe _ ch) = 8 + child_rank ch"
| "pc_rank (GRet _) = 6" | "pc_rank (GRecorded _) = 5" | "pc_rank GReported = 4"
| "pc_rank GCancelled = 3" | "pc_rank GDone = 0"

definition rank :: "nat \<Rightarrow> world \<Rightarrow> nat" where
  "rank p w = (case cells w p of None \<Rightarrow> 0 | Some c \<Rightarrow> 2 * pc_rank (pc c) + (if ln_open c then 1 else 0))"

lemma end_child_rank: "live_child g = Some pid \<Longrightarrow> pc_rank (end_child r g) < pc_rank g"
  by (auto elim: live_childE)

lemma cells_report_end [simp]: "cells (report_end p err w) = cells w"
  by (simp add: report_end_def split: option.split)

lemma cells_close_ln: "cells (close_ln p w) q =
    (if q = p then map_option (\<lambda>c. c\<lparr>ln_open := False\<rparr>) (cells w p) else cells w q)"
  by (auto simp: close_ln_def Let_def split: option.split)

lemma gstep_rank: "gstep p w w' \<Longrightarrow> rank p w' < rank p w"
proof (induction rule: gstep.induct)
  case (process_ends w c pid r)
  then show ?case using end_child_rank by (simp add: rank_def cell_defs)
next
  case (process_killed w c pid)
  then show ?case using end_child_rank by (simp add: rank_def cell_defs)
next
  case (records w c err)
  then show ?case by (cases err) (simp_all add: rank_def cell_defs record_end_def)
qed (simp_all add: rank_def cell_defs cells_close_ln)

text \<open>
  A scheduler that takes one of the moves open to a goroutine: commands start, ports accept at
  once, a \<^verbatim>\<open>Run\<close> returns and a child ends with the result \<open>r\<close>.
\<close>

definition advance :: "string option \<Rightarrow> nat \<Rightarrow> world \<Rightarrow> world" where
  "advance r p w = (case cells w p of None \<Rightarrow> w | Some c \<Rightarrow>
     (case pc c of
        GRun \<Rightarrow> (case Work (task c) of
            NoWork \<Rightarrow> w
          | SpawnWork _ \<Rightarrow> set_pc p GPrep (close_ln p w)
          | ChildWork _ \<Rightarrow> set_pc p (GChild 7 Live) w
          | _ \<Rightarrow> set_pc p (GRet r) w)
      | GChild pid ch \<Rightarrow> set_pc p (GWait pid ch) (publish p pid w)
      | GWait pid Live \<Rightarrow> set_pc p (GWait pid (Ended r)) w
      | GWait pid (Ended r') \<Rightarrow> set_pc p (GRet r') w
      | GPrep \<Rightarrow> set_pc p (GPoll 7 Live) w
      | GPoll pid ch \<Rightarrow> set_pc p (GServe pid ch) (setState p StateRunning None w)
      | GServe pid Live \<Rightarrow> set_pc p (GServe pid (Ended r)) w
      | GServe pid (Ended r') \<Rightarrow> set_pc p (GRet r') w
      | GRet err \<Rightarrow> set_pc p (GRecorded err) (record_end p err w)
      | GRecorded err \<Rightarrow> set_pc p GReported (report_end p err w)
      | GReported \<Rightarrow> set_pc p GCancelled (cancel p w)
      | GCancelled \<Rightarrow> set_pc p GDone (finish p w)
      | GDone \<Rightarrow> w))"

lemma advance_step:
  assumes "cells w p = Some c" and "cell_ok c" and "\<not> finished c"
  shows "gstep p w (advance r p w)"
proof (cases "pc c")
  case GRun
  with assms show ?thesis
    by (cases "Work (task c)") (auto simp: cell_ok_def advance_def intro: gstep.intros)
next
  case (GWait pid ch) with assms show ?thesis
    by (cases ch) (use gstep.process_ends [of w p c pid r] in
      \<open>auto simp: advance_def intro: gstep.child_waited\<close>)
next
  case (GServe pid ch) with assms show ?thesis
    by (cases ch) (use gstep.process_ends [of w p c pid r] in
      \<open>auto simp: advance_def intro: gstep.serve_exited\<close>)
qed (use assms in \<open>auto simp: cell_ok_def advance_def intro: gstep.intros\<close>)

lemma gstep_not_stuck:
  "cells w p = Some c \<Longrightarrow> cell_ok c \<Longrightarrow> \<not> finished c \<Longrightarrow> \<exists>w'. gstep p w w'"
  using advance_step by blast

lemma advance_finished: "cells w p = Some c \<Longrightarrow> cell_ok c \<Longrightarrow> finished c \<Longrightarrow> advance r p w = w"
  by (simp add: advance_def cell_ok_def)

lemma gsteps_rank: "(gstep p ^^ m) w w' \<Longrightarrow> rank p w' + m \<le> rank p w"
proof (induction m arbitrary: w')
  case (Suc m)
  then obtain v where "(gstep p ^^ m) w v" and "gstep p v w'" by auto
  with Suc.IH gstep_rank show ?case by fastforce
qed simp

lemma gsteps_steps: "(gstep p)\<^sup>*\<^sup>* w w' \<Longrightarrow> step\<^sup>*\<^sup>* (w, k) (w', k)"
  by (induction rule: rtranclp_induct) (auto intro: goroutine rtranclp.rtrancl_into_rtrancl)

lemma gsteps_known:
  assumes "(gstep p)\<^sup>*\<^sup>* w w'" and "cells w p = Some c"
  shows "\<exists>c'. cells w' p = Some c' \<and> cell_grows c c'"
  using assms(1)
proof (induction rule: rtranclp_induct)
  case (step u v)
  then show ?case by (meson cell_grows_trans growsD gstep_grows)
qed (use assms(2) in auto)

lemma child_rank_bound: "child_rank ch \<le> 1"
  by (cases ch) auto

lemma pc_rank_bound: "pc_rank g \<le> 14"
  using child_rank_bound by (cases g) (auto intro: le_trans [OF child_rank_bound])

lemma rank_bound: "rank p w \<le> 29"
proof (cases "cells w p")
  case (Some c)
  then show ?thesis using pc_rank_bound [of "pc c"] by (simp add: rank_def)
qed (simp add: rank_def)

lemma advance_finishes:
  assumes "cells w p = Some c" and "cell_ok c" and "rank p w \<le> n"
  shows "(gstep p)\<^sup>*\<^sup>* w ((advance r p ^^ n) w) \<and> is_finished ((advance r p ^^ n) w) p"
  using assms
proof (induction n arbitrary: w c)
  case (Suc n)
  show ?case
  proof (cases "finished c")
    case True
    then have "(advance r p ^^ m) w = w" for m
      using Suc.prems(1,2) by (induction m) (simp_all add: advance_finished)
    with True Suc.prems(1) show ?thesis by (simp only: is_finished_def) simp
  next
    case False
    let ?v = "advance r p w"
    have g: "gstep p w ?v" by (rule advance_step [OF Suc.prems(1,2) False])
    then obtain c' where "cells ?v p = Some c'" and "cell_grows c c'"
      using Suc.prems(1) by (meson growsD gstep_grows)
    with Suc.IH [of ?v c'] Suc.prems(2,3) gstep_rank [OF g] g show ?thesis
      by (auto simp: cell_grows_def funpow_swap1 intro: converse_rtranclp_into_rtranclp)
  qed
next
  case 0
  then have "finished c"
    by (cases "pc c") (auto simp: rank_def cell_ok_def split: if_splits)
  with 0 show ?case by (simp add: is_finished_def)
qed

lemma goroutine_finishes:
  "cells w p = Some c \<Longrightarrow> cell_ok c \<Longrightarrow> \<exists>w'. (gstep p)\<^sup>*\<^sup>* w w' \<and> is_finished w' p"
  using advance_finishes [OF _ _ rank_bound] by blast

lemma cstep_Failed:
  assumes "cstep (w, k) (w', k')"
  shows "Failed w' = Failed w"
  using assms
proof (cases rule: cstep.cases)
  case (call_start i kern t t')
  then show ?thesis by (auto elim: Start_registers)
next
  case (call_start_fails i kern t e)
  then show ?thesis by (simp add: Start_fails)
next
  case (wait_ends i key p c t)
  then show ?thesis by (auto dest: wait_end_world)
qed (auto simp: stop_begin_def stop_all_begin_def)

lemma StopAll_returns:
  assumes "system_inv (w, k)" and "k i = CAllNext live left"
  shows "\<exists>w'. step\<^sup>*\<^sup>* (w, k) (w', k(i := CAllDone live))"
  using assms
proof (induction left arbitrary: w k)
  case Nil
  have "step (w, k) (w, k(i := CAllDone live))" by (rule caller, rule all_ends) (rule Nil.prems(2))
  then show ?case by blast
next
  case (Cons p left)
  let ?k1 = "k(i := CAllWait live p left)" and ?k2 = "k(i := CAllNext live left)"
  have s1: "step (w, k) (cancel p w, ?k1)"
    using all_cancels [of k i live "p # left" p w] Cons.prems(2) by (auto intro: caller)
  note inv1 = step_inv [OF s1 Cons.prems(1)]
  obtain c where c: "cells (cancel p w) p = Some c"
    using inv_caller [OF inv1, of i] by (auto simp: is_cancelled_def split: option.splits)
  from goroutine_finishes [OF c inv_cell_ok [OF inv1 c]] obtain w2 where
    w2: "(gstep p)\<^sup>*\<^sup>* (cancel p w) w2" "is_finished w2 p" by auto
  note s2 = gsteps_steps [OF w2(1), of ?k1]
  have s3: "step (w2, ?k1) (w2, ?k2)"
    using w2(2) all_waited [of ?k1 i live p left w2]
    by (auto simp: is_finished_def intro: caller split: option.splits)
  have steps: "step\<^sup>*\<^sup>* (w, k) (w2, ?k2)"
    using s1 s2 s3 by (meson converse_rtranclp_into_rtranclp rtranclp.rtrancl_into_rtrancl)
  then have "system_inv (w2, ?k2)" using Cons.prems(1) by (rule tasks.steps_inv)
  moreover have "?k2 i = CAllNext live left" by simp
  ultimately obtain w3 where "step\<^sup>*\<^sup>* (w2, ?k2) (w3, k(i := CAllDone live))"
    using Cons.IH [of w2 ?k2] unfolding fun_upd_upd by blast
  with steps show ?case by (meson rtranclp_trans)
qed

lemma Stop_returns:
  assumes inv: "system_inv (w, k)" and ki: "k i = CStopWait p"
  shows "\<exists>w'. step\<^sup>*\<^sup>* (w, k) (w', k(i := CStopped (Some p)))"
proof -
  obtain c where c: "cells w p = Some c"
    using inv_caller [OF inv, of i] ki by (auto simp: is_cancelled_def split: option.splits)
  from goroutine_finishes [OF c inv_cell_ok [OF inv c]] obtain w2 where
    w2: "(gstep p)\<^sup>*\<^sup>* w w2" "is_finished w2 p" by auto
  have "step (w2, k) (w2, k(i := CStopped (Some p)))"
    using w2(2) stop_ends [of k i p w2] ki
    by (auto simp: is_finished_def intro: caller split: option.splits)
  with gsteps_steps [OF w2(1), of k] show ?thesis by (meson rtranclp.rtrancl_into_rtrancl)
qed

section \<open>What the registry answers\<close>

lemma set_held:
  "set (held w) = {task c | key p c. (key, p) \<in> set (reg w) \<and> cells w p = Some c}"
  by (force simp: held_def map_filter_def split: prod.splits)

lemma held_listed:
  assumes "system_inv (w, k)"
  shows "t \<in> set (held w) \<longleftrightarrow> (\<exists>p c. lookup w (ID t) = Some p \<and> cells w p = Some c \<and> t = task c)"
proof -
  have d: "distinct (map fst (reg w))" using assms by (simp add: system_inv_def reg_ok_def)
  show ?thesis
    using inv_lookup [OF assms] by (fastforce simp: set_held lookup_def map_of_eq_Some_iff [OF d])
qed

lemma held_ids:
  assumes "system_inv (w, k)"
  shows "map ID (held w) = sort (map fst (reg w))"
proof -
  have d: "distinct (map fst (reg w))" using assms by (simp add: system_inv_def reg_ok_def)
  have "map ID (List.map_filter (\<lambda>(key, p). map_option task (cells w p)) kps) = map fst kps"
    if "set kps \<subseteq> set (reg w)" for kps
    using that
  proof (induction kps)
    case (Cons kp kps)
    obtain key p where kp: "kp = (key, p)" by (cases kp)
    with Cons.prems have "lookup w key = Some p" by (simp add: lookup_def map_of_eq_Some_iff [OF d])
    then obtain c where "cells w p = Some c" "ID (task c) = key" using inv_lookup [OF assms] by auto
    with Cons kp show ?case by (simp add: List.map_filter_simps)
  qed (simp add: List.map_filter_simps)
  then have "map ID (held w) = map fst (sort_key fst (reg w))" by (simp add: held_def)
  also have "\<dots> = sort (map fst (reg w))"
    by (rule sorted_distinct_set_unique) (use d in \<open>simp_all add: distinct_map\<close>)
  finally show ?thesis .
qed

end
