(* ===== verification/TaskProps.thy ===== *)
theory TaskProps
  imports TaskEnds
begin

text \<open>
  The properties of the task registry under concurrency, with a run of the registry that
  their hypotheses hold of.
\<close>

section \<open>A run to witness the properties with\<close>

definition demo_kernel :: kernel where
  "demo_kernel = \<lparr>listen_tcp = (\<lambda>a. Inr (loopback 8080)), unix_error = (\<lambda>_. None),
     chmod_error = (\<lambda>_. None), removable = (\<lambda>_. True), socket_mode = 493\<rparr>"

definition demo_task :: Task where
  "demo_task = zero_task\<lparr>Kind := ''usage'', Work := RunWork\<rparr>"

definition demo_world :: world where
  "demo_world = snd (Start demo_kernel demo_task empty_world)"

lemma demo_world_simps [simp]:
  "cells demo_world 0 = Some (new_cell (named demo_task))"
  "reg demo_world = [(''usage'', 0)]" "Failed demo_world = []"
  by (simp_all add: demo_world_def Start_def prepare_def demo_task_def zero_task_def named_def
    cells_register reg_register empty_world_def lookup_def Let_def)

lemma demo_started: "reachable (demo_world, \<lambda>_. CIdle)"
proof (rule reach_step)
  show "reachable (empty_world, \<lambda>_. CIdle)"
    by (rule reach_init) (auto simp: initial_def empty_world_def intro!: exI [of _ Map.empty])
  have "Start demo_kernel demo_task empty_world = (Inr (named demo_task), demo_world)"
    by (simp add: demo_world_def Start_def prepare_def demo_task_def zero_task_def Let_def)
  then show "step (empty_world, \<lambda>_. CIdle) (demo_world, \<lambda>_. CIdle)"
    by (intro caller call_start [of _ 0 demo_kernel demo_task])
       (simp_all add: demo_task_def zero_task_def)
qed

lemma reachable_step: "reachable s \<Longrightarrow> step s s' \<Longrightarrow> reachable s'"
  by (rule reach_step)

lemma reach_caller: "reachable s \<Longrightarrow> cstep s s' \<Longrightarrow> reachable s'"
  by (rule reach_step) (auto intro: caller)

lemma demo_stop_all:
  "reachable (demo_world\<lparr>reg := []\<rparr>, (\<lambda>_. CIdle)(0 := CAllNext [0] [0]))"
proof (rule reach_step, rule reach_step [OF demo_started])
  show "step (demo_world, \<lambda>_. CIdle) (demo_world, (\<lambda>_. CIdle)(0 := CAll))"
    by (intro caller call_stop_all) simp
  have "cstep (demo_world, (\<lambda>_. CIdle)(0 := CAll))
      (demo_world\<lparr>reg := []\<rparr>, ((\<lambda>_. CIdle)(0 := CAll))(0 := CAllNext [0] [0]))"
    by (rule all_cleared) (simp_all add: stop_all_begin_def)
  then show "step (demo_world, (\<lambda>_. CIdle)(0 := CAll))
      (demo_world\<lparr>reg := []\<rparr>, (\<lambda>_. CIdle)(0 := CAllNext [0] [0]))"
    by (simp add: caller)
qed

lemma demo_all_stopped: "\<exists>w. reachable (w, (\<lambda>_. CIdle)(0 := CAllDone [0]))"
proof -
  let ?k = "(\<lambda>_. CIdle)(0 := CAllNext [0] [0])"
  obtain w' where "step\<^sup>*\<^sup>* (demo_world\<lparr>reg := []\<rparr>, ?k) (w', ?k(0 := CAllDone [0]))"
    using StopAll_returns [OF reachable_system_inv [OF demo_stop_all], of 0 "[0]" "[0]"] by auto
  from reach_steps [OF this demo_stop_all] show ?thesis by auto
qed

lemma demo_stopped: "\<exists>w. reachable (w, (\<lambda>_. CIdle)(0 := CStopped (Some 0)))"
proof -
  let ?k = "\<lambda>x. (\<lambda>_. CIdle)(0 := x)"
  have s1: "step (demo_world, \<lambda>_. CIdle) (demo_world, ?k (CStop ''usage''))"
    by (intro caller call_stop) simp
  have s2: "cstep (demo_world, ?k (CStop ''usage''))
      (unlist ''usage'' demo_world, (?k (CStop ''usage''))(0 := CStopping 0))"
    by (rule stop_known [where key = "''usage''"]) (simp_all add: stop_begin_def lookup_def)
  have r1: "reachable (demo_world, ?k (CStop ''usage''))"
    by (rule reachable_step [OF demo_started s1])
  have r2: "reachable (unlist ''usage'' demo_world, ?k (CStopping 0))"
    by (rule reach_caller [OF r1]) (use s2 in \<open>simp only: fun_upd_upd\<close>)
  have s3: "cstep (unlist ''usage'' demo_world, ?k (CStopping 0))
      (cancel 0 (unlist ''usage'' demo_world), (?k (CStopping 0))(0 := CStopWait 0))"
    by (rule stop_cancels [of "?k (CStopping 0)" 0 0]) simp
  have r: "reachable (cancel 0 (unlist ''usage'' demo_world), ?k (CStopWait 0))"
    by (rule reach_caller [OF r2]) (use s3 in \<open>simp only: fun_upd_upd\<close>)
  obtain w' where "step\<^sup>*\<^sup>* (cancel 0 (unlist ''usage'' demo_world), ?k (CStopWait 0))
      (w', (?k (CStopWait 0))(0 := CStopped (Some 0)))"
    using Stop_returns [OF reachable_system_inv [OF r], of 0 0] by auto
  from reach_steps [OF this r] show ?thesis by auto
qed

text \<open>The demo task returns an error, which is recorded and then reported.\<close>

definition demo_failed :: world where
  "demo_failed = set_pc 0 (GRecorded (Some ''boom''))
     (record_end 0 (Some ''boom'') (set_pc 0 (GRet (Some ''boom'')) demo_world))"

lemma demo_failed_reachable: "reachable (demo_failed, \<lambda>_. CIdle)"
proof -
  have "gstep 0 demo_world (set_pc 0 (GRet (Some ''boom'')) demo_world)"
    by (rule run_returns [OF demo_world_simps(1)])
       (simp_all add: new_cell_def named_def demo_task_def zero_task_def)
  moreover have "gstep 0 (set_pc 0 (GRet (Some ''boom'')) demo_world) demo_failed"
    unfolding demo_failed_def
    by (rule records [where c = "(new_cell (named demo_task))\<lparr>pc := GRet (Some ''boom'')\<rparr>"])
       (simp_all add: set_pc_def)
  ultimately show ?thesis
    using demo_started by (auto intro: reach_step goroutine)
qed

lemma demo_failed_cell:
  "\<exists>c. cells demo_failed 0 = Some c \<and> pc c = GRecorded (Some ''boom'') \<and>
     State (task c) = StateFailed \<and> Error (task c) = ''boom'' \<and> ID (task c) = ''usage'' \<and>
     \<not> cancelled c \<and> Work (task c) = RunWork"
  by (simp add: demo_failed_def record_end_def cell_defs new_cell_def named_def demo_task_def zero_task_def)

text \<open>A spawned task whose command has ended with status 0 before its port accepted.\<close>

definition demo_spawn :: Task where
  "demo_spawn = zero_task\<lparr>Kind := ''fs'', Addr := ''127.0.0.1:8080'',
     Work := SpawnWork (\<lambda>port. \<lparr>argv = [''sftp''], Dir = [], Env = []\<rparr>)\<rparr>"

lemma demo_polling:
  "\<exists>w c. reachable (w, \<lambda>_. CIdle) \<and> cells w 0 = Some c \<and> pc c = GPoll 7 (Ended None)"
proof -
  let ?t = "named (bound_to (loopback 8080) (prepare demo_spawn))" and ?k = "\<lambda>_ :: nat. CIdle"
  let ?w = "register ?t empty_world"
  let ?w1 = "set_pc 0 GPrep (close_ln 0 ?w)"
  let ?w2 = "set_pc 0 (GPoll 7 Live) ?w1"
  have init: "reachable (empty_world, ?k)"
    by (rule reach_init) (auto simp: initial_def empty_world_def intro!: exI [of _ Map.empty])
  have work: "Work demo_spawn = SpawnWork (\<lambda>port. \<lparr>argv = [''sftp''], Dir = [], Env = []\<rparr>)"
    and kind: "Kind demo_spawn \<noteq> []" "State demo_spawn = StateNone" "Error demo_spawn = []"
    and addr: "Addr demo_spawn = ''127.0.0.1:8080''"
    by (simp_all add: demo_spawn_def zero_task_def)
  have sp: "split_host_port ''127.0.0.1:8080'' \<noteq> None" by (simp add: split_host_port_def last_colon_def)
  have pa: "Addr (prepare demo_spawn) = ''127.0.0.1:8080''"
    by (simp add: prepare_def work addr cmp_or_def)
  have "Start demo_kernel demo_spawn empty_world = (Inr ?t, ?w)"
    using sp by (simp add: Start_def pa listen_def demo_kernel_def Let_def)
  then have r0: "reachable (?w, ?k)"
    by (intro reach_caller [OF init] call_start [of _ 0 demo_kernel demo_spawn]) (simp_all add: work kind)
  have c0: "cells ?w 0 = Some (new_cell ?t)" by (simp add: cells_register empty_world_def)
  have w0: "Work ?t = SpawnWork (\<lambda>port. \<lparr>argv = [''sftp''], Dir = [], Env = []\<rparr>)"
    by (simp add: named_def bound_to_def prepare_def work)
  have g1: "gstep 0 ?w ?w1" by (rule spawn_releases [OF c0]) (simp_all add: new_cell_def w0)
  have c1: "cells ?w1 0 = Some ((new_cell ?t)\<lparr>ln_open := False, pc := GPrep\<rparr>)"
    by (simp add: set_pc_def cells_close_ln c0)
  have g2: "gstep 0 ?w1 ?w2" by (rule spawn_starts [OF c1]) simp_all
  have c2: "cells ?w2 0 = Some ((new_cell ?t)\<lparr>ln_open := False, pc := GPoll 7 Live\<rparr>)"
    by (simp add: set_pc_def [of 0 "GPoll 7 Live"] c1)
  have g3: "gstep 0 ?w2 (set_pc 0 (end_child None (GPoll 7 Live)) ?w2)"
    using process_ends [OF c2, of 7 None] by simp
  have "reachable (set_pc 0 (end_child None (GPoll 7 Live)) ?w2, ?k)"
    by (rule reachable_step [OF reachable_step [OF reachable_step [OF r0]]]; rule goroutine, rule g1 g2 g3)
  moreover have "cells (set_pc 0 (end_child None (GPoll 7 Live)) ?w2) 0 =
      Some ((new_cell ?t)\<lparr>ln_open := False, pc := GPoll 7 (Ended None)\<rparr>)"
    by (simp add: set_pc_def [of 0 "GPoll 7 (Ended None)"] c2)
  moreover have "pc ((new_cell ?t)\<lparr>ln_open := False, pc := GPoll 7 (Ended None)\<rparr>) = GPoll 7 (Ended None)"
    by simp
  ultimately show ?thesis by blast
qed

section \<open>Lists of one\<close>

lemma singleton_list: "set xs = {x} \<Longrightarrow> distinct xs \<Longrightarrow> xs = [x]"
  by (cases xs rule: list.exhaust; cases "tl xs") auto

lemma distinct_mapI: "distinct (map f xs) \<Longrightarrow> distinct xs"
  by (simp add: distinct_map)

section \<open>Properties\<close>

text \<open>C2: no task is ever lost. In every interleaving of task goroutines with callers of \<^verbatim>\<open>Start\<close>,
  \<^verbatim>\<open>Wait\<close>, \<^verbatim>\<open>Stop\<close> and \<^verbatim>\<open>StopAll\<close>, a task is listed under its own id, or its context is
  cancelled, or a caller that has taken it off the list is about to cancel it.\<close>

theorem no_task_is_lost:
  assumes "reachable (w, k)" and "cells w p = Some c"
  shows "lookup w (ID (task c)) = Some p \<or> cancelled c \<or> (\<exists>i. stopping (k i) p)"
  using reachable_system_inv [OF assms(1)] assms(2) by (auto simp: system_inv_def none_lost_def)

theorem no_task_is_lost_witness:
  "\<exists>c. cells (demo_world\<lparr>reg := []\<rparr>) 0 = Some c \<and> \<not> cancelled c \<and>
     lookup (demo_world\<lparr>reg := []\<rparr>) (ID (task c)) = None \<and>
     (\<exists>i. stopping (((\<lambda>_. CIdle)(0 := CAllNext [0] [0])) i) 0)"
  using no_task_is_lost [OF demo_stop_all, of 0 "new_cell (named demo_task)"]
  by (simp add: lookup_def new_cell_def)

text \<open>C3: what is listed is consistent. Ids are unique, every listed task is found under its own
  id, one that has finished is failed or exited and its context is cancelled, an exited one has
  no error, and only tasks that stand for a child process are ever starting.\<close>

theorem listed_tasks_consistent:
  assumes "reachable (w, k)"
  shows "distinct (map fst (reg w)) \<and>
    (\<forall>key p. lookup w key = Some p \<longrightarrow> (\<exists>c. cells w p = Some c \<and> ID (task c) = key \<and>
      (finished c \<longrightarrow> cancelled c \<and> State (task c) \<in> {StateFailed, StateExited}) \<and>
      (State (task c) = StateExited \<longrightarrow> Error (task c) = []) \<and>
      (State (task c) = StateStarting \<longrightarrow> is_child (Work (task c)))))"
proof (intro conjI allI impI)
  note inv = reachable_system_inv [OF assms]
  show "distinct (map fst (reg w))" using inv by (simp add: system_inv_def reg_ok_def)
  fix key p
  assume "lookup w key = Some p"
  with inv obtain c where c: "cells w p = Some c" "ID (task c) = key" by (blast dest: inv_lookup)
  note ok = inv_cell_ok [OF inv c(1)]
  with c finished_facts [OF ok] show "\<exists>c. cells w p = Some c \<and> ID (task c) = key \<and>
      (finished c \<longrightarrow> cancelled c \<and> State (task c) \<in> {StateFailed, StateExited}) \<and>
      (State (task c) = StateExited \<longrightarrow> Error (task c) = []) \<and>
      (State (task c) = StateStarting \<longrightarrow> is_child (Work (task c)))"
    by (intro exI [of _ c]) (auto simp: cell_ok_def)
qed

theorem listed_tasks_consistent_witness:
  "distinct (map fst (reg demo_failed))"
  using listed_tasks_consistent [OF demo_failed_reachable] by blast

text \<open>C4: once \<^verbatim>\<open>StopAll\<close> returns, every task that was listed when it took its copy of the registry
  has finished: its state is final and its child process, if it had one, has ended.\<close>

theorem StopAll_waits_for_all:
  assumes "reachable (w, k)" and "k i = CAllDone live" and "p \<in> set live"
  shows "\<exists>c. cells w p = Some c \<and> finished c \<and> State (task c) \<in> {StateFailed, StateExited} \<and>
    live_child (pc c) = None"
proof -
  note inv = reachable_system_inv [OF assms(1)]
  from inv_caller [OF inv, of i] assms(2,3) obtain c where c: "cells w p = Some c" "finished c"
    by (auto simp: is_finished_def split: option.splits)
  with finished_facts [OF inv_cell_ok [OF inv c(1)]] show ?thesis by auto
qed

theorem StopAll_waits_for_all_witness:
  "\<exists>w c. reachable (w, (\<lambda>_. CIdle)(0 := CAllDone [0])) \<and> cells w 0 = Some c \<and> finished c \<and>
    State (task c) \<in> {StateFailed, StateExited} \<and> live_child (pc c) = None"
proof -
  obtain w where r: "reachable (w, (\<lambda>_. CIdle)(0 := CAllDone [0]))" using demo_all_stopped ..
  from StopAll_waits_for_all [OF this, of 0 "[0]" 0] r show ?thesis by auto
qed

text \<open>Once \<^verbatim>\<open>Stop\<close> reports a task stopped, that task has finished, with its child process.\<close>

theorem Stop_waits_for_the_task:
  assumes "reachable (w, k)" and "k i = CStopped (Some p)"
  shows "\<exists>c. cells w p = Some c \<and> finished c \<and> State (task c) \<in> {StateFailed, StateExited} \<and>
    live_child (pc c) = None"
proof -
  note inv = reachable_system_inv [OF assms(1)]
  from inv_caller [OF inv, of i] assms(2) obtain c where c: "cells w p = Some c" "finished c"
    by (auto simp: is_finished_def split: option.splits)
  with finished_facts [OF inv_cell_ok [OF inv c(1)]] show ?thesis by auto
qed

theorem Stop_waits_for_the_task_witness:
  "\<exists>(w :: world) c. cells w 0 = Some c \<and> finished c \<and> State (task c) \<in> {StateFailed, StateExited} \<and>
    live_child (pc c) = None"
proof -
  obtain w where "reachable (w, (\<lambda>_. CIdle)(0 := CStopped (Some 0)))" using demo_stopped ..
  from Stop_waits_for_the_task [OF this, of 0 0] show ?thesis by auto
qed

text \<open>The end of a task is final. Once a task is failed or exited no later step of anything
  changes its state, its error or any other field.\<close>

theorem ended_task_never_changes:
  assumes "reachable (w, k)" and "cells w p = Some c" and "State (task c) \<in> {StateFailed, StateExited}"
    and "step\<^sup>*\<^sup>* (w, k) (w', k')"
  shows "\<exists>c'. cells w' p = Some c' \<and> task c' = task c"
proof -
  note inv = reachable_system_inv [OF assms(1)]
  from steps_grow [OF assms(4) inv] assms(2) obtain c' where
    "cells w' p = Some c'" "cell_grows c c'" by (auto dest: growsD)
  with final_is_ending [OF inv_cell_ok [OF inv assms(2)] assms(3)] inv_cell_ok [OF inv assms(2)]
  show ?thesis by (auto simp: cell_grows_def)
qed

theorem ended_task_never_changes_witness:
  "\<exists>c c'. cells demo_failed 0 = Some c \<and> State (task c) = StateFailed \<and>
     cells (demo_failed\<lparr>Failed := []\<rparr>) 0 = Some c' \<and> task c' = task c"
proof -
  obtain c where c: "cells demo_failed 0 = Some c" "State (task c) = StateFailed"
    using demo_failed_cell by auto
  have "step\<^sup>*\<^sup>* (demo_failed, \<lambda>_. CIdle) (demo_failed\<lparr>Failed := []\<rparr>, \<lambda>_. CIdle)"
    by (intro r_into_rtranclp failed_received)
  from ended_task_never_changes [OF demo_failed_reachable c(1) _ this] c show ?thesis by auto
qed

text \<open>C5: the end of a child process is never fatal. A step that puts an error into the channel
  \<^verbatim>\<open>main\<close> exits on finds it empty, and the error is that of a task that is Linkspan's own code,
  has failed with it, and was not cancelled.\<close>

theorem only_own_code_is_fatal:
  assumes "reachable s" and "step s s'" and "Failed (fst s') \<noteq> Failed (fst s)" and "Failed (fst s') \<noteq> []"
  shows "Failed (fst s) = [] \<and> (\<exists>p c. cells (fst s) p = Some c \<and> Work (task c) \<in> {RunWork, ServerWork} \<and>
    \<not> cancelled c \<and> State (task c) = StateFailed \<and>
    Failed (fst s') = [ID (task c) @ '': '' @ Error (task c)])"
  using assms(2)
proof (cases rule: step.cases)
  case (goroutine p w w' k)
  then obtain c e where c: "Failed w = []" "cells w p = Some c" "\<not> cancelled c"
      "\<not> is_child (Work (task c))" "pc c = GRecorded (Some e)" "Failed w' = [ID (task c) @ '': '' @ e]"
    using gstep_Failed [OF goroutine(3)] assms(3) by auto
  have "cell_ok c" using assms(1) goroutine c(2) by (auto intro: inv_cell_ok reachable_system_inv)
  with c(4,5) have "Work (task c) \<in> {RunWork, ServerWork}" "State (task c) = StateFailed" "Error (task c) = e"
    by (cases "Work (task c)"; simp add: cell_ok_def)+
  with c goroutine show ?thesis by auto
next
  case caller
  then have "Failed (fst s') = Failed (fst s)"
    using cstep_Failed [of "fst s" "snd s" "fst s'" "snd s'"] by simp
  with assms(3) show ?thesis by simp
next
  case (failed_received w k)
  with assms(4) show ?thesis by simp
qed

theorem only_own_code_is_fatal_witness:
  "\<exists>w p c. step (demo_failed, \<lambda>_. CIdle) (w, \<lambda>_. CIdle) \<and> cells demo_failed p = Some c \<and>
     Work (task c) \<in> {RunWork, ServerWork} \<and> State (task c) = StateFailed \<and>
     Failed w = [ID (task c) @ '': '' @ Error (task c)] \<and> Failed w = [''usage: boom'']"
proof -
  obtain c where c: "cells demo_failed 0 = Some c" "pc c = GRecorded (Some ''boom'')"
      "\<not> cancelled c" "Work (task c) = RunWork" "ID (task c) = ''usage''"
    using demo_failed_cell by auto
  let ?w = "set_pc 0 GReported (report_end 0 (Some ''boom'') demo_failed)"
  have f1: "Failed demo_failed = []" by (simp add: demo_failed_def set_pc_def)
  then have f2: "Failed ?w = [''usage: boom'']"
    using c by (simp add: set_pc_def report_end_def)
  have s: "step (demo_failed, \<lambda>_. CIdle) (?w, \<lambda>_. CIdle)"
    by (rule goroutine, rule reports) (use c in auto)
  from only_own_code_is_fatal [OF demo_failed_reachable s, unfolded fst_conv f1 f2] f2 s show ?thesis
    by (intro exI [of _ ?w]) auto
qed





text \<open>\<^verbatim>\<open>Select\<close> lists the registered tasks of a kind and no others, each once, ordered by id.\<close>

theorem Select_lists_kind_by_id:
  assumes "reachable (w, k)"
  shows "sorted (map ID (Select kind w)) \<and> distinct (map ID (Select kind w)) \<and>
    (\<forall>t. t \<in> set (Select kind w) \<longleftrightarrow>
       (\<exists>p c. lookup w (ID t) = Some p \<and> cells w p = Some c \<and> t = task c \<and> Kind t = kind))"
proof -
  note inv = reachable_system_inv [OF assms]
  have d: "distinct (map fst (reg w))" using inv by (simp add: system_inv_def reg_ok_def)
  have "sorted (map ID (held w))" "distinct (map ID (held w))"
    by (simp_all add: held_ids [OF inv] d)
  then show ?thesis
    by (auto simp: Select_def held_listed [OF inv] sorted_filter distinct_map_filter)
qed

theorem Select_lists_kind_by_id_witness:
  "Select ''usage'' demo_world = [named demo_task]"
proof -
  have k: "Kind (named demo_task) = ''usage''" "ID (named demo_task) = ''usage''"
    by (simp_all add: named_def demo_task_def zero_task_def)
  have all: "sorted (map ID (Select ''usage'' demo_world)) \<and> distinct (map ID (Select ''usage'' demo_world)) \<and>
    (\<forall>t. t \<in> set (Select ''usage'' demo_world) \<longleftrightarrow> (\<exists>p c. lookup demo_world (ID t) = Some p \<and>
       cells demo_world p = Some c \<and> t = task c \<and> Kind t = ''usage''))"
    by (rule Select_lists_kind_by_id [OF demo_started])
  have look: "lookup demo_world key = (if key = ''usage'' then Some 0 else None)" for key
    by (simp add: lookup_def)
  have "t \<in> set (Select ''usage'' demo_world) \<longleftrightarrow> t = named demo_task" for t
    using all [THEN conjunct2, THEN conjunct2, THEN spec, of t] k by (auto simp: look new_cell_def)
  then have "set (Select ''usage'' demo_world) = {named demo_task}" by (intro set_eqI) simp
  moreover have "distinct (Select ''usage'' demo_world)" using all distinct_mapI by blast
  ultimately show ?thesis by (rule singleton_list)
qed

text \<open>\<^verbatim>\<open>IsServing\<close> holds of exactly the positive ports a registered running task is bound to,
  which is what the forward checks before it dials.\<close>

theorem IsServing_iff_a_running_task_listens:
  assumes "reachable (w, k)"
  shows "IsServing port w \<longleftrightarrow> port > 0 \<and>
    (\<exists>key p c. lookup w key = Some p \<and> cells w p = Some c \<and> State (task c) = StateRunning \<and> Port (task c) = port)"
proof -
  note inv = reachable_system_inv [OF assms]
  show ?thesis
    using held_listed [OF inv] inv_lookup [OF inv]
    by (fastforce simp: IsServing_def list_ex_iff)
qed

theorem IsServing_iff_a_running_task_listens_witness:
  "\<not> IsServing 0 demo_world"
  using IsServing_iff_a_running_task_listens [OF demo_started, of 0] by simp

text \<open>C8: what a task's \<^verbatim>\<open>Run\<close> returns is what its end says, whatever else happens before it is
  recorded: no error makes it exited, an error makes it failed with that error.\<close>

theorem end_is_what_Run_returned:
  assumes "reachable (w, k)" and "cells w p = Some c" and "pc c = GRet err"
    and "step\<^sup>*\<^sup>* (w, k) (w', k')" and "is_finished w' p"
  shows "\<exists>c'. cells w' p = Some c' \<and>
    (case err of None \<Rightarrow> State (task c') = StateExited
     | Some e \<Rightarrow> State (task c') = StateFailed \<and> Error (task c') = e)"
proof -
  note inv = reachable_system_inv [OF assms(1)]
  from steps_grow [OF assms(4) inv] assms(2) obtain c' where
    c': "cells w' p = Some c'" "cell_grows c c'" by (auto dest: growsD)
  moreover have "pc c' = GDone"
    using c' assms(5) inv_cell_ok [OF inv assms(2)] by (auto simp: is_finished_def cell_grows_def cell_ok_def)
  ultimately show ?thesis
    using assms(3) by (auto simp: cell_grows_def returns_with_def split: option.split)
qed

theorem end_is_what_Run_returned_witness:
  "\<exists>w c. step\<^sup>*\<^sup>* (demo_world, \<lambda>_. CIdle) (w, \<lambda>_. CIdle) \<and> cells w 0 = Some c \<and> is_finished w 0 \<and>
     State (task c) = StateFailed \<and> Error (task c) = ''boom''"
proof -
  let ?u = "set_pc 0 (GRet (Some ''boom'')) demo_world" and ?k = "\<lambda>_ :: nat. CIdle"
  have g: "gstep 0 demo_world ?u"
    by (rule run_returns [OF demo_world_simps(1)])
       (simp_all add: new_cell_def named_def demo_task_def zero_task_def)
  have u: "cells ?u 0 = Some ((new_cell (named demo_task))\<lparr>pc := GRet (Some ''boom'')\<rparr>)"
    by (simp add: set_pc_def)
  have r: "reachable (?u, ?k)" by (rule reachable_step [OF demo_started goroutine [OF g]])
  obtain w where w: "(gstep 0)\<^sup>*\<^sup>* ?u w" "is_finished w 0"
    using goroutine_finishes [OF u inv_cell_ok [OF reachable_system_inv [OF r] u]] by blast
  have "step\<^sup>*\<^sup>* (demo_world, ?k) (w, ?k)"
    using gsteps_steps [OF converse_rtranclp_into_rtranclp [of "gstep 0", OF g w(1)]] .
  with end_is_what_Run_returned [OF r u _ gsteps_steps [OF w(1)] w(2)] w(2) show ?thesis by auto
qed

text \<open>A spawned command that ends before its port accepts makes its task failed even when the
  command exited with status 0, and the error then ends in the marker \<^verbatim>\<open>fmt\<close> prints for an absent
  error: from there the goroutine can finish that way.\<close>

theorem spawn_exit_before_port_fails:
  assumes "reachable (w, k)" and "cells w p = Some c" and "pc c = GPoll pid (Ended None)"
  shows "\<exists>w' c'. step\<^sup>*\<^sup>* (w, k) (w', k) \<and> cells w' p = Some c' \<and> finished c' \<and>
    State (task c') = StateFailed \<and> Error (task c') = ''exited before answering: %!w(<nil>)''"
proof -
  let ?e = "exited_before_answering None"
  let ?u = "set_pc p (GRet (Some ?e)) w"
  have g: "gstep p w ?u" by (rule poll_exited [OF assms(2,3)])
  have u: "cells ?u p = Some (c\<lparr>pc := GRet (Some ?e)\<rparr>)" using assms(2) by (simp add: set_pc_def)
  have r: "reachable (?u, k)" by (rule reachable_step [OF assms(1) goroutine [OF g]])
  note inv = reachable_system_inv [OF r]
  obtain w' where w': "(gstep p)\<^sup>*\<^sup>* ?u w'" "is_finished w' p"
    using goroutine_finishes [OF u inv_cell_ok [OF inv u]] by blast
  from gsteps_known [OF w'(1) u] obtain c' where c': "cells w' p = Some c'"
    "cell_grows (c\<lparr>pc := GRet (Some ?e)\<rparr>) c'" by blast
  have "returns_with (Some ?e) c'" using c'(2) by (simp add: cell_grows_def returns_with_def)
  moreover have "finished c'" using w'(2) c'(1) by (simp add: is_finished_def)
  moreover have "pc c' = GDone"
    using c'(2) inv_cell_ok [OF inv u] \<open>finished c'\<close> by (simp add: cell_grows_def cell_ok_def)
  ultimately have "State (task c') = StateFailed" "Error (task c') = ?e"
    by (simp_all add: returns_with_def)
  moreover have "step\<^sup>*\<^sup>* (w, k) (w', k)"
    using gsteps_steps [OF converse_rtranclp_into_rtranclp [of "gstep p", OF g w'(1)]] .
  ultimately show ?thesis
    using c'(1) \<open>finished c'\<close>
    by (intro exI [of _ w'] exI [of _ c']) (simp add: exited_before_answering_def wrapped_def)
qed

theorem spawn_exit_before_port_fails_witness:
  "\<exists>(w :: world) c. cells w 0 = Some c \<and> finished c \<and> State (task c) = StateFailed"
proof -
  obtain w c where "reachable (w, \<lambda>_. CIdle)" "cells w 0 = Some c" "pc c = GPoll 7 (Ended None)"
    using demo_polling by blast
  from spawn_exit_before_port_fails [OF this] show ?thesis by blast
qed

section \<open>What \<^verbatim>\<open>StopAll\<close> does not wait for\<close>

lemma gstep_other: "gstep p w w' \<Longrightarrow> q \<noteq> p \<Longrightarrow> cells w' q = cells w q"
  by (erule gstep_cell) simp

lemma gsteps_other: "(gstep p)\<^sup>*\<^sup>* w w' \<Longrightarrow> q \<noteq> p \<Longrightarrow> cells w' q = cells w q"
  by (induction rule: rtranclp_induct) (auto dest: gstep_other)

definition demo_child :: Task where
  "demo_child = zero_task\<lparr>ID := ''x'', Kind := ''process'', Work := ChildWork \<lparr>argv = [''sleep''], Dir = [], Env = []\<rparr>\<rparr>"

text \<open>\<^verbatim>\<open>StopAll\<close> waits for the tasks that are listed. One that another has taken the id of is cancelled,
  but its child can be alive still when \<^verbatim>\<open>StopAll\<close> has returned.\<close>

lemma replaced_child_outlives_StopAll:
  "\<exists>w k live c pid. reachable (w, k) \<and> k 0 = CAllDone live \<and> cells w 0 = Some c \<and> live_child (pc c) = Some pid"
proof -
  let ?t = "named (prepare demo_child)" and ?k = "\<lambda>x. (\<lambda>_ :: nat. CIdle)(0 := x)"
  let ?u = "register ?t empty_world"
  let ?v = "set_pc 0 (GChild 7 Live) ?u"
  let ?w = "register ?t ?v"
  have t: "Work ?t = Work demo_child" "ID ?t = ''x''" "Work demo_child = ChildWork \<lparr>argv = [''sleep''], Dir = [], Env = []\<rparr>"
    "Kind demo_child \<noteq> []" "State demo_child = StateNone" "Error demo_child = []"
    by (simp_all add: demo_child_def zero_task_def named_def prepare_def)
  have start: "Start kern demo_child w = (Inr ?t, register ?t w)" for kern w
    by (simp add: Start_def Let_def) (simp add: demo_child_def zero_task_def prepare_def)
  have init: "reachable (empty_world, ?k CIdle)"
    by (rule reach_init) (auto simp: initial_def empty_world_def fun_upd_idem intro!: exI [of _ Map.empty])
  have u: "reachable (?u, ?k CIdle)"
    by (rule reach_caller [OF init call_start [OF _ start]]) (simp_all add: t)
  have c0: "cells ?u 0 = Some (new_cell ?t)" by (simp add: cells_register empty_world_def)
  have v: "reachable (?v, ?k CIdle)"
    by (rule reachable_step [OF u goroutine [OF child_starts [OF c0]]]) (simp_all add: new_cell_def t)
  have w: "reachable (?w, ?k CIdle)"
    by (rule reach_caller [OF v call_start [OF _ start]]) (simp_all add: t)
  have nextp: "nextp ?v = 1" and reg_v: "reg ?v = [(''x'', 0)]"
    by (simp_all add: set_pc_def empty_world_def reg_register t(2))
  then have lookup: "lookup ?v (ID ?t) = Some 0" by (simp add: lookup_def t(2))
  have reg: "reg ?w = [(''x'', 1)]" by (simp only: reg_register reg_v nextp t(2)) simp
  have "cells ?v 0 = Some ((new_cell ?t)\<lparr>pc := GChild 7 Live\<rparr>)"
    by (simp add: set_pc_def c0 del: One_nat_def)
  then have c: "cells ?w 0 = Some ((new_cell ?t)\<lparr>pc := GChild 7 Live, cancelled := True\<rparr>)"
    "cells ?w 1 = Some (new_cell ?t)"
    unfolding cells_register nextp lookup by simp_all
  let ?x = "?w\<lparr>reg := []\<rparr>"
  let ?y = "cancel 1 ?x"
  have taken: "stop_all_begin ?w = ([1], ?x)" by (simp only: stop_all_begin_def reg) simp
  have s1: "cstep (?w, ?k CIdle) (?w, ?k CAll)" using call_stop_all [of "?k CIdle" 0 ?w] by simp
  have s2: "cstep (?w, ?k CAll) (?x, ?k (CAllNext [1] [1]))"
    using all_cleared [of "?k CAll" 0 ?w, OF _ taken] by (simp only: fun_upd_same fun_upd_upd simp_thms)
  have s3: "cstep (?x, ?k (CAllNext [1] [1])) (?y, ?k (CAllWait [1] 1 []))"
    using all_cancels [of "?k (CAllNext [1] [1])" 0 "[1]" "[1]" 1 ?x] by simp
  have y: "reachable (?y, ?k (CAllWait [1] 1 []))"
    by (rule reach_caller [OF reach_caller [OF reach_caller [OF w s1] s2] s3])
  have y1: "cells ?y 1 = Some ((new_cell ?t)\<lparr>cancelled := True\<rparr>)"
    using c(2) by (simp only: cancel_def cells_upd_cell) simp
  obtain z where z: "(gstep 1)\<^sup>*\<^sup>* ?y z" "is_finished z 1"
    using goroutine_finishes [OF y1 inv_cell_ok [OF reachable_system_inv [OF y] y1]] by blast
  obtain c' where c': "cells z 1 = Some c'" "finished c'" using z(2) by (auto simp: is_finished_def split: option.splits)
  have s4: "cstep (z, ?k (CAllWait [1] 1 [])) (z, ?k (CAllNext [1] []))"
    using all_waited [of "?k (CAllWait [1] 1 [])" 0 "[1]" 1 "[]", OF _ c'] by simp
  have s5: "cstep (z, ?k (CAllNext [1] [])) (z, ?k (CAllDone [1]))"
    using all_ends [of "?k (CAllNext [1] [])" 0 "[1]" z] by simp
  have "reachable (z, ?k (CAllDone [1]))"
    by (rule reach_caller [OF reach_caller [OF reach_steps [OF gsteps_steps [OF z(1)] y] s4] s5])
  moreover have "cells z 0 = cells ?w 0"
    unfolding gsteps_other [OF z(1), of 0, simplified] by (simp only: cancel_def cells_upd_cell) simp
  ultimately show ?thesis
    using c(1) by (intro exI [of _ z] exI [of _ "?k (CAllDone [1])"] exI [of _ "[1]"]) auto
qed

end
