(* ===== verification/TaskSpec.thy ===== *)
theory TaskSpec
  imports TaskProps
begin

text \<open>
  What the task registry promises, as a machine of its own: ids that name tasks, tasks that start,
  answer and end in that order, and tasks that are doomed, which are those that are cancelled or
  will be by a caller that has begun to stop them. The registry and its goroutines refine it.
\<close>

section \<open>The specification\<close>

datatype phase = Pending | Serving | Over "string option"

text \<open>Phases are ordered by what may come of them; no two ends are comparable.\<close>

instantiation phase :: order
begin

definition less_eq_phase :: "phase \<Rightarrow> phase \<Rightarrow> bool" where
  "less_eq_phase ph ph' \<longleftrightarrow> ph' = ph \<or> ph = Pending \<or> (ph = Serving \<and> ph' \<noteq> Pending)"

definition less_phase :: "phase \<Rightarrow> phase \<Rightarrow> bool" where
  "less_phase ph ph' \<longleftrightarrow> ph \<le> ph' \<and> ph' \<noteq> ph"

instance
  by standard (auto simp: less_eq_phase_def less_phase_def)

end

lemma over_is_last [simp]: "Over r \<le> ph \<longleftrightarrow> ph = Over r"
  by (auto simp: less_eq_phase_def)

lemma phase_le_simps [simp]: "Pending \<le> ph" "Serving \<le> Over r"
  by (simp_all add: less_eq_phase_def)

record registry_spec =
  listed :: "string \<Rightarrow> nat option"
  status :: "nat \<Rightarrow> (string \<times> phase) option"
  doomed :: "nat set"

text \<open>
  A task leaves the list only when it is over or doomed from then on, one that another takes the id
  of is doomed, and one that is over stays so.
\<close>

inductive spec_step :: "registry_spec \<Rightarrow> registry_spec \<Rightarrow> bool" where
  spec_starts: "status a p = None \<Longrightarrow> ph \<in> {Pending, Serving} \<Longrightarrow>
    spec_step a (a\<lparr>listed := (listed a)(key \<mapsto> p), status := (status a)(p \<mapsto> (key, ph)),
      doomed := doomed a \<union> {q. listed a key = Some q}\<rparr>)"
| spec_answers: "status a p = Some (key, Pending) \<Longrightarrow>
    spec_step a (a\<lparr>status := (status a)(p \<mapsto> (key, Serving))\<rparr>)"
| spec_ends: "status a p = Some (key, ph) \<Longrightarrow> ph \<in> {Pending, Serving} \<Longrightarrow>
    spec_step a (a\<lparr>status := (status a)(p \<mapsto> (key, Over r))\<rparr>)"
| spec_over_dooms: "status a p = Some (key, Over r) \<Longrightarrow> spec_step a (a\<lparr>doomed := insert p (doomed a)\<rparr>)"
| spec_reaps: "listed a key = Some p \<Longrightarrow> status a p = Some (key, Over r) \<Longrightarrow>
    spec_step a (a\<lparr>listed := (listed a)(key := None)\<rparr>)"
| spec_stops: "listed a key = Some p \<Longrightarrow>
    spec_step a (a\<lparr>listed := (listed a)(key := None), doomed := insert p (doomed a)\<rparr>)"
| spec_stops_all: "spec_step a (a\<lparr>listed := Map.empty, doomed := doomed a \<union> ran (listed a)\<rparr>)"

inductive_cases spec_stepE: "spec_step a b"

definition spec_initial :: "registry_spec \<Rightarrow> bool" where
  "spec_initial a \<longleftrightarrow> listed a = Map.empty \<and> status a = Map.empty \<and> doomed a = {}"

text \<open>What the specification alone gives: every task that is not doomed is listed under its id.\<close>

definition listed_known :: "registry_spec \<Rightarrow> bool" where
  "listed_known a \<longleftrightarrow> (\<forall>key p. listed a key = Some p \<longrightarrow> (\<exists>ph. status a p = Some (key, ph)))"

definition spec_ok :: "registry_spec \<Rightarrow> bool" where
  "spec_ok a \<longleftrightarrow> listed_known a \<and> (\<forall>p key ph. status a p = Some (key, ph) \<longrightarrow>
     p \<in> doomed a \<or> listed a key = Some p \<or> (\<exists>r. ph = Over r))"

lemma listed_knownD: "listed_known a \<Longrightarrow> listed a key = Some p \<Longrightarrow> status a p = Some (key', ph) \<Longrightarrow> key = key'"
  by (fastforce simp: listed_known_def)

lemma spec_step_known: "spec_step a b \<Longrightarrow> listed_known a \<Longrightarrow> listed_known b"
  by (induction rule: spec_step.induct) (fastforce simp: listed_known_def)+

text \<open>A task that must be listed or doomed, and is.\<close>

definition held_on :: "registry_spec \<Rightarrow> nat \<Rightarrow> string \<Rightarrow> phase \<Rightarrow> bool" where
  "held_on a p key ph \<longleftrightarrow> p \<in> doomed a \<or> listed a key = Some p \<or> (\<exists>r. ph = Over r)"

lemma spec_step_held:
  assumes "spec_step a b" and "listed_known a" and "\<And>p key ph. status a p = Some (key, ph) \<Longrightarrow> held_on a p key ph"
    and "status b q = Some (key, ph)"
  shows "held_on b q key ph"
  using assms(1)
proof (cases rule: spec_step.cases)
  case (spec_answers p key')
  with assms(3) [of p key' Pending] assms(3) [of q key ph] assms(4) show ?thesis
    by (auto simp: held_on_def split: if_splits)
next
  case (spec_ends p key' ph' r)
  with assms(3) [of q key ph] assms(4) show ?thesis by (auto simp: held_on_def split: if_splits)
next
  case (spec_reaps key' p r)
  with assms(3) [of q key ph] assms(4) listed_knownD [OF assms(2), of key' q key ph] show ?thesis
    by (cases "q = p") (auto simp: held_on_def)
next
  case (spec_stops key' p)
  with assms(3) [of q key ph] assms(4) show ?thesis by (cases "q = p") (auto simp: held_on_def)
next
  case spec_stops_all
  with assms(3) [of q key ph] assms(4) show ?thesis by (auto simp: held_on_def ran_def)
qed (use assms(3) [of q key ph] assms(4) in \<open>auto simp: held_on_def split: if_splits\<close>)

interpretation spec: invariant_of spec_initial spec_step spec_ok
proof unfold_locales
  show "spec_ok b" if "spec_ok a" "spec_step a b" for a b
    using that spec_step_known [OF that(2)] spec_step_held [OF that(2)]
    by (simp add: spec_ok_def held_on_def)
qed (simp add: spec_initial_def spec_ok_def listed_known_def)

lemma spec_step_forward:
  "spec_step a b \<Longrightarrow> status a p = Some (key, ph) \<Longrightarrow> \<exists>ph'. status b p = Some (key, ph') \<and> ph \<le> ph'"
  by (induction rule: spec_step.induct) auto

lemma spec_steps_forward:
  assumes "spec_step\<^sup>*\<^sup>* a b" and "status a p = Some (key, ph)"
  shows "\<exists>ph'. status b p = Some (key, ph') \<and> ph \<le> ph'"
  using assms(1)
proof (induction rule: rtranclp_induct)
  case (step b c)
  then show ?case using spec_step_forward by (meson order_trans)
qed (use assms(2) in simp)

section \<open>The abstraction\<close>

definition phase_of :: "Task \<Rightarrow> phase" where
  "phase_of t = (case State t of
       StateExited \<Rightarrow> Over None | StateFailed \<Rightarrow> Over (Some (Error t))
     | StateStarting \<Rightarrow> Pending | _ \<Rightarrow> Serving)"

definition doomed_tasks :: "system \<Rightarrow> nat set" where
  "doomed_tasks s = {p. is_cancelled (fst s) p \<or> (\<exists>i. stopping (snd s i) p)}"

definition registry_of :: "system \<Rightarrow> registry_spec" where
  "registry_of s = \<lparr>listed = lookup (fst s),
     status = (\<lambda>p. map_option (\<lambda>c. (ID (task c), phase_of (task c))) (cells (fst s) p)),
     doomed = doomed_tasks s\<rparr>"

lemma registry_of_eqI:
  "lookup w' = lookup w \<Longrightarrow> cells w' = cells w \<Longrightarrow> doomed_tasks (w', k') = doomed_tasks (w, k) \<Longrightarrow>
     registry_of (w', k') = registry_of (w, k)"
  by (simp add: registry_of_def)

section \<open>The goroutines\<close>

text \<open>What a goroutine's step is in the specification: nothing, an answer, an end, or a cancellation after it.\<close>

datatype spec_move = Stutter | Answers | Ends | Dooms

fun moves_as :: "spec_move \<Rightarrow> cell \<Rightarrow> cell \<Rightarrow> bool" where
  "moves_as Stutter c c' = (phase_of (task c') = phase_of (task c) \<and> cancelled c' = cancelled c)"
| "moves_as Answers c c' = (phase_of (task c) = Pending \<and> phase_of (task c') = Serving \<and> cancelled c' = cancelled c)"
| "moves_as Ends c c' = (phase_of (task c) \<in> {Pending, Serving} \<and> (\<exists>r. phase_of (task c') = Over r) \<and>
     cancelled c' = cancelled c)"
| "moves_as Dooms c c' = ((\<exists>r. phase_of (task c) = Over r) \<and> phase_of (task c') = phase_of (task c) \<and> cancelled c')"

lemma phase_of_simps [simp]:
  "State t = StateStarting \<Longrightarrow> phase_of t = Pending" "State t = StateRunning \<Longrightarrow> phase_of t = Serving"
  "State t = StateExited \<Longrightarrow> phase_of t = Over None" "State t = StateFailed \<Longrightarrow> phase_of t = Over (Some (Error t))"
  by (simp_all add: phase_of_def)

lemma gstep_moves:
  assumes "gstep p w w'" and "cells w p = Some c" and "cell_ok c"
  obtains c' m where "cells w' = (cells w)(p \<mapsto> c')" and "moves_as m c c'"
  using assms(1)
proof (cases rule: gstep.cases)
  case (records c1 err)
  with assms(2,3) show ?thesis
    by (cases err) (auto simp: cell_defs record_end_def cell_ok_def fun_eq_iff intro!: that [of _ Ends])
next
  case (cancels c1)
  with assms(2,3) show ?thesis
    by (auto simp: cell_defs cell_ok_def fun_eq_iff intro!: that [of _ Dooms])
next
  case (child_publishes c1 pid ch)
  with assms(2,3) show ?thesis
    by (auto simp: cell_defs cell_ok_def fun_eq_iff intro!: that [of _ Answers])
next
  case (poll_accepts c1 pid ch)
  with assms(2,3) show ?thesis
    by (auto simp: cell_defs cell_ok_def fun_eq_iff intro!: that [of _ Answers])
next
  case (process_killed c1 pid)
  with assms(2,3) show ?thesis
    by (auto simp: cell_defs fun_eq_iff upd_cell_def intro!: that [of "c\<lparr>pc := end_child (Some ''signal: killed'') (pc c)\<rparr>" Stutter])
next
  case (spawn_releases c1 f)
  with assms(2,3) show ?thesis
    by (auto simp: cell_defs close_ln_def fun_eq_iff upd_cell_def intro!: that [of "c\<lparr>ln_open := False, pc := GPrep\<rparr>" Stutter])
next
  case (listener_closes c1)
  with assms(2,3) show ?thesis
    by (auto simp: cell_defs close_ln_def fun_eq_iff upd_cell_def intro!: that [of "c\<lparr>ln_open := False\<rparr>" Stutter])
next
  case (reports c1 err)
  with assms(2,3) show ?thesis
    by (auto simp: cell_defs fun_eq_iff intro!: that [of "c\<lparr>pc := GReported\<rparr>" Stutter])
qed (use assms(2,3) in \<open>auto simp: cell_defs fun_eq_iff intro!: that [of _ Stutter]\<close>)

lemma doomed_unchanged:
  "\<forall>q. is_cancelled w' q = is_cancelled w q \<Longrightarrow> doomed_tasks (w', k) = doomed_tasks (w, k)"
  by (simp add: doomed_tasks_def)

lemma cancelled_upd: "cells w' = (cells w)(p \<mapsto> c') \<Longrightarrow>
    is_cancelled w' q = (if q = p then cancelled c' else is_cancelled w q)"
  by (simp add: is_cancelled_def)

lemma move_refines:
  assumes "moves_as m c c'" and "cells w p = Some c" and "cells w' = (cells w)(p \<mapsto> c')"
    and "ID (task c') = ID (task c)" and "lookup w' = lookup w"
  shows "spec_step\<^sup>=\<^sup>= (registry_of (w, k)) (registry_of (w', k))"
proof -
  have status: "status (registry_of (w', k)) = (status (registry_of (w, k)))(p \<mapsto> (ID (task c), phase_of (task c')))"
    using assms(3,4) by (auto simp: registry_of_def)
  have old: "status (registry_of (w, k)) p = Some (ID (task c), phase_of (task c))"
    using assms(2) by (simp add: registry_of_def)
  have listed: "listed (registry_of (w', k)) = listed (registry_of (w, k))"
    using assms(5) by (simp add: registry_of_def)
  note now = cancelled_upd [OF assms(3)]
  have was: "is_cancelled w p = cancelled c" using assms(2) by (simp add: is_cancelled_def)
  have same: "doomed (registry_of (w', k)) = doomed (registry_of (w, k))" if "cancelled c' = cancelled c"
    using that by (auto simp: registry_of_def doomed_tasks_def now was)
  have eq: "registry_of (w', k) = (registry_of (w, k))\<lparr>status := (status (registry_of (w, k)))(p \<mapsto> (ID (task c), phase_of (task c'))),
      doomed := doomed (registry_of (w', k))\<rparr>"
    using status listed by (intro registry_spec.equality) simp_all
  have triv: "(status (registry_of (w, k)))(p \<mapsto> (ID (task c), phase_of (task c))) = status (registry_of (w, k))"
    using old by (rule fun_upd_idem)
  show ?thesis
  proof (cases m)
    case Stutter
    with assms(1) same triv eq show ?thesis by simp
  next
    case Answers
    with assms(1) same old spec_answers [of "registry_of (w, k)" p "ID (task c)"] show ?thesis
      by (subst eq) simp
  next
    case Ends
    with assms(1) obtain r where "phase_of (task c) \<in> {Pending, Serving}" "phase_of (task c') = Over r"
      "cancelled c' = cancelled c" by auto
    with same old spec_ends [of "registry_of (w, k)" p "ID (task c)" "phase_of (task c)" r] show ?thesis
      by (subst eq) simp
  next
    case Dooms
    with assms(1) obtain r where r: "phase_of (task c) = Over r" "phase_of (task c') = phase_of (task c)" "cancelled c'"
      by auto
    then have "doomed (registry_of (w', k)) = insert p (doomed (registry_of (w, k)))"
      by (auto simp: registry_of_def doomed_tasks_def now)
    with r old triv spec_over_dooms [of "registry_of (w, k)" p "ID (task c)" r] show ?thesis
      by (subst eq) simp
  qed
qed

lemma gstep_refines:
  assumes "gstep p w w'" and "system_inv (w, k)"
  shows "spec_step\<^sup>=\<^sup>= (registry_of (w, k)) (registry_of (w', k))"
proof -
  from assms(1) obtain c c0 where c: "cells w p = Some c" "cells w' = (cells w)(p \<mapsto> c0)" "cell_grows c c0"
    by (rule gstep_cell)
  from assms(1) c(1) inv_cell_ok [OF assms(2) c(1)] obtain c' m where
    c': "cells w' = (cells w)(p \<mapsto> c')" "moves_as m c c'" by (rule gstep_moves)
  have "c' = c0" using c(2) c'(1) by (metis fun_upd_same option.inject)
  with c c' gstep_frame [OF assms(1)] show ?thesis
    by (intro move_refines [OF c'(2) c(1) c'(1)]) (auto simp: cell_grows_def lookup_def fun_eq_iff)
qed

section \<open>The callers\<close>

lemma caller_stutters:
  assumes "cells w' = cells w \<or> w' = cancel p w \<and> stopping (k i) p" and "lookup w' = lookup w"
    and "\<And>q. stopping x q \<Longrightarrow> stopping (k i) q"
    and "\<And>q. stopping (k i) q \<Longrightarrow> stopping x q \<or> is_cancelled w' q"
  shows "registry_of (w', k(i := x)) = registry_of (w, k)"
proof -
  have "is_cancelled w q \<Longrightarrow> is_cancelled w' q" "is_cancelled w' q \<Longrightarrow> is_cancelled w q \<or> stopping (k i) q" for q
    using assms(1) by (auto simp: is_cancelled_def cancel_def split: option.splits if_splits)
  then have "doomed_tasks (w', k(i := x)) = doomed_tasks (w, k)"
    using assms(3,4) by (auto simp: doomed_tasks_def split: if_splits) metis+
  moreover have "map_option (\<lambda>c. (ID (task c), phase_of (task c))) (cells w' q) =
      map_option (\<lambda>c. (ID (task c), phase_of (task c))) (cells w q)" for q
    using assms(1) by (auto simp: cancel_def option.map_comp comp_def)
  ultimately show ?thesis using assms(2) by (simp add: registry_of_def)
qed

lemma doomed_caller:
  assumes "\<And>q. stopping x q \<longleftrightarrow> stopping (k i) q \<or> q \<in> D" and "\<And>q. is_cancelled w' q = is_cancelled w q"
  shows "doomed_tasks (w', k(i := x)) = doomed_tasks (w, k) \<union> D"
proof -
  have "(\<exists>j. stopping ((k(i := x)) j) q) \<longleftrightarrow> (\<exists>j. stopping (k j) q) \<or> q \<in> D" for q
    using assms(1) [of q] by (metis fun_upd_apply)
  with assms(2) show ?thesis by (auto simp: doomed_tasks_def)
qed

lemma caller_waits_on:
  "(\<And>q. stopping x q = stopping (k i) q) \<Longrightarrow> registry_of (w, k(i := x)) = registry_of (w, k)"
  by (rule caller_stutters) auto

lemma register_refines:
  assumes "system_inv (w, k)" and "phase_of t \<in> {Pending, Serving}"
  shows "spec_step (registry_of (w, k)) (registry_of (register t w, k))"
proof -
  let ?a = "registry_of (w, k)"
  have fresh: "cells w (nextp w) = None"
    using assms(1) by (cases "cells w (nextp w)") (auto simp: system_inv_def cells_ok_def)
  have known: "lookup w (ID t) = Some q \<Longrightarrow> cells w q \<noteq> None" for q using inv_lookup [OF assms(1)] by blast
  have "is_cancelled (register t w) q \<longleftrightarrow> is_cancelled w q \<or> lookup w (ID t) = Some q" for q
    using fresh known [of q] by (auto simp: is_cancelled_def cells_register new_cell_def split: option.splits)
  then have doomed: "doomed_tasks (register t w, k) = doomed_tasks (w, k) \<union> {q. lookup w (ID t) = Some q}"
    by (auto simp: doomed_tasks_def)
  have status: "map_option (\<lambda>c. (ID (task c), phase_of (task c))) (cells (register t w) q) =
      (if q = nextp w then Some (ID t, phase_of t) else map_option (\<lambda>c. (ID (task c), phase_of (task c))) (cells w q))" for q
    by (auto simp: cells_register new_cell_def option.map_comp comp_def)
  have "registry_of (register t w, k) = ?a\<lparr>listed := (listed ?a)(ID t \<mapsto> nextp w),
      status := (status ?a)(nextp w \<mapsto> (ID t, phase_of t)), doomed := doomed ?a \<union> {q. listed ?a (ID t) = Some q}\<rparr>"
    by (simp add: registry_of_def doomed status fun_eq_iff lookup_register)
  moreover have "status ?a (nextp w) = None" using fresh by (simp add: registry_of_def)
  ultimately show ?thesis using spec_starts [of ?a "nextp w" "phase_of t" "ID t"] assms(2) by simp
qed

lemma unlist_refines:
  assumes "lookup w key = Some p" and "\<And>q. stopping x q \<longleftrightarrow> stopping (k i) q \<or> q \<in> {p}"
  shows "spec_step (registry_of (w, k)) (registry_of (unlist key w, k(i := x)))"
proof -
  let ?a = "registry_of (w, k)"
  have "doomed_tasks (unlist key w, k(i := x)) = doomed_tasks (w, k) \<union> {p}"
    using assms(2) by (rule doomed_caller) (simp add: is_cancelled_def)
  then have "registry_of (unlist key w, k(i := x)) = ?a\<lparr>listed := (listed ?a)(key := None), doomed := insert p (doomed ?a)\<rparr>"
    by (simp add: registry_of_def lookup_unlist fun_eq_iff)
  with spec_stops [of ?a key p] assms(1) show ?thesis by (simp add: registry_of_def)
qed

lemma start_refines:
  assumes inv: "system_inv (w, k)" and start: "Start kern t w = (Inr t', w')" and t: "State t = StateNone"
  shows "spec_step (registry_of (w, k)) (registry_of (w', k))"
proof -
  from start obtain w1 where w1: "w' = register t' w1" "cells w1 = cells w" "reg w1 = reg w"
      "nextp w1 = nextp w" "Failed w1 = Failed w"
    and t': "State t' = cmp_or StateNone (if is_child (Work t) then StateStarting else State t) StateRunning"
    by (auto elim: Start_registers)
  from inv w1 have "system_inv (w1, k)"
    by (intro system_inv_cong [OF inv]) (auto simp: system_inv_def)
  moreover have "phase_of t' \<in> {Pending, Serving}" using t' t by (cases "is_child (Work t)") auto
  moreover have "registry_of (w1, k) = registry_of (w, k)"
    using w1 by (intro registry_of_eqI) (auto simp: lookup_def doomed_tasks_def is_cancelled_def)
  ultimately show ?thesis using register_refines [of w1 k t'] w1 by simp
qed

lemma wait_refines:
  assumes inv: "system_inv (w, k)" and i: "k i = CWaiting key p" and c: "cells w p = Some c" "finished c"
    and wait: "wait_end key p w = (t, w')"
  shows "spec_step\<^sup>=\<^sup>= (registry_of (w, k)) (registry_of (w', k(i := CWaited t)))"
proof -
  let ?a = "registry_of (w, k)"
  have w': "w' = (if lookup w key = Some p then unlist key w else w)" using wait_end_world [OF wait] by simp
  have x: "registry_of (v, k(i := CWaited t)) = registry_of (v, k)" for v
    using i by (intro caller_stutters) auto
  show ?thesis
  proof (cases "lookup w key = Some p")
    case True
    with inv_lookup [OF inv True] c finished_facts [OF inv_cell_ok [OF inv c(1)]]
    obtain r where "status ?a p = Some (key, Over r)" by (auto simp: registry_of_def)
    moreover have "registry_of (unlist key w, k) = ?a\<lparr>listed := (listed ?a)(key := None)\<rparr>"
      by (simp add: registry_of_def lookup_unlist fun_eq_iff doomed_tasks_def is_cancelled_def)
    ultimately show ?thesis using spec_reaps [of ?a key p r] True w' x by (simp add: registry_of_def)
  qed (simp add: w' x)
qed

lemma clear_refines:
  assumes inv: "system_inv (w, k)" and i: "k i = CAll" and live: "live = map snd (reg w)"
  shows "spec_step (registry_of (w, k)) (registry_of (w\<lparr>reg := []\<rparr>, k(i := CAllNext live live)))"
proof -
  let ?a = "registry_of (w, k)" and ?k = "k(i := CAllNext live live)"
  have "ran (lookup w) = set live"
    using inv by (simp add: live lookup_def [abs_def] ran_distinct system_inv_def reg_ok_def)
  then have "doomed_tasks (w\<lparr>reg := []\<rparr>, ?k) = doomed_tasks (w, k) \<union> ran (lookup w)"
    using i by (intro doomed_caller) (simp_all add: is_cancelled_def)
  then have "registry_of (w\<lparr>reg := []\<rparr>, ?k) = ?a\<lparr>listed := Map.empty, doomed := doomed ?a \<union> ran (listed ?a)\<rparr>"
    by (simp add: registry_of_def lookup_def fun_eq_iff)
  with spec_stops_all [of ?a] show ?thesis by simp
qed

lemma cancel_stutters:
  assumes inv: "system_inv (w, k)" and i: "k i = CAllNext live left" and p: "p \<in> set left"
  shows "registry_of (cancel p w, k(i := CAllWait live p (remove1 p left))) = registry_of (w, k)"
proof -
  from inv_caller [OF inv, of i] i p have "cells w p \<noteq> None" by auto
  then have "is_cancelled (cancel p w) p" by (auto simp: is_cancelled_def cancel_def)
  then have "q \<in> set left \<Longrightarrow> q \<in> set (remove1 p left) \<or> is_cancelled (cancel p w) q" for q
    by (cases "q = p") simp_all
  then show ?thesis
    using i p set_remove1_subset [of p left] by (intro caller_stutters [where p = p]) (auto simp: lookup_def)
qed

lemma cstep_refines:
  assumes "cstep (w, k) (w', k')" and inv: "system_inv (w, k)"
  shows "spec_step\<^sup>=\<^sup>= (registry_of (w, k)) (registry_of (w', k'))"
  using assms(1)
proof (cases rule: cstep.cases)
  case (call_start i kern t t')
  then show ?thesis using start_refines [OF inv] by simp
next
  case (call_start_fails i kern t e)
  then have "cells w' = cells w" "reg w' = reg w" by (auto dest: Start_fails)
  then have "registry_of (w', k) = registry_of (w, k)"
    by (intro registry_of_eqI) (auto simp: lookup_def doomed_tasks_def is_cancelled_def)
  with call_start_fails show ?thesis by simp
next
  case (wait_ends i key p c t)
  then show ?thesis using wait_refines [OF inv] by simp
next
  case (stop_unknown i key)
  then have "w' = w" by (auto simp: stop_begin_def unlist_absent)
  with stop_unknown show ?thesis by (simp add: caller_waits_on)
next
  case (stop_known i key p)
  then have "lookup w key = Some p" "w' = unlist key w" by (auto simp: stop_begin_def)
  with stop_known unlist_refines [of w key p "CStopping p" k i] show ?thesis by simp
next
  case (stop_cancels i p)
  with inv_caller [OF inv, of i] have "is_cancelled (cancel p w) p" by (auto simp: is_cancelled_def cancel_def)
  with stop_cancels have "registry_of (w', k(i := CStopWait p)) = registry_of (w, k)"
    by (intro caller_stutters [where p = p]) (auto simp: lookup_def)
  with stop_cancels show ?thesis by simp
next
  case (all_cleared i live)
  then have "live = map snd (reg w)" "w' = w\<lparr>reg := []\<rparr>" by (auto simp: stop_all_begin_def)
  with all_cleared clear_refines [OF inv, of i live] show ?thesis by simp
next
  case (all_cancels i live left p)
  then show ?thesis using cancel_stutters [OF inv] by simp
next
  case (returns i t r live)
  then have "\<not> stopping (k i) q" for q by auto
  with returns show ?thesis by (simp add: caller_waits_on)
qed (simp_all add: caller_waits_on)

section \<open>The refinement\<close>

lemma step_refines:
  assumes "step s s'" and "system_inv s"
  shows "spec_step\<^sup>=\<^sup>= (registry_of s) (registry_of s')"
  using assms
proof (induction rule: step.induct)
  case (goroutine p w w' k)
  then show ?case by (rule gstep_refines)
next
  case (caller s s')
  obtain w k w' k' where "s = (w, k)" and "s' = (w', k')" by (cases s, cases s')
  with caller cstep_refines [of w k w' k'] show ?case by simp
next
  case (failed_received w k)
  have "registry_of (w\<lparr>Failed := []\<rparr>, k) = registry_of (w, k)"
    by (rule registry_of_eqI) (simp_all add: lookup_def fun_eq_iff doomed_tasks_def is_cancelled_def)
  then show ?case by simp
qed

lemma initial_refines: "initial s \<Longrightarrow> spec_initial (registry_of s)"
  by (auto simp: initial_def spec_initial_def registry_of_def empty_world_def lookup_def doomed_tasks_def is_cancelled_def)

lemma reachable_refines: "reachable s \<Longrightarrow> reach spec_initial spec_step (registry_of s)"
proof (induction rule: reach.induct)
  case (reach_step s s')
  then have "system_inv s" by (intro tasks.reachable_inv)
  from step_refines [OF reach_step(2) this] reach_step(3) show ?case
    by (auto intro: reach.reach_step)
qed (auto intro: reach.reach_init initial_refines)

lemma steps_refine:
  assumes "step\<^sup>*\<^sup>* s s'" and "system_inv s"
  shows "spec_step\<^sup>*\<^sup>* (registry_of s) (registry_of s')"
  using assms(1)
proof (induction rule: rtranclp_induct)
  case (step u v)
  have "system_inv u" using tasks.steps_inv [OF step.hyps(1) assms(2)] .
  from step_refines [OF step.hyps(2) this] step.IH show ?case by (auto intro: rtranclp.rtrancl_into_rtrancl)
qed simp

section \<open>Properties\<close>

text \<open>C1: the registry with its goroutines and callers refines its specification: it starts in an initial
  state of it, and each of its steps is one of the specification or leaves what it speaks of as it
  is. So ids name the tasks the specification says, each task starts, answers and ends in that
  order and once, and one that leaves the list is over or doomed.\<close>

theorem registry_refines_its_specification:
  assumes "reachable s" and "step s s'"
  shows "reach spec_initial spec_step (registry_of s) \<and>
    (registry_of s' = registry_of s \<or> spec_step (registry_of s) (registry_of s'))"
  using reachable_refines [OF assms(1)] step_refines [OF assms(2) tasks.reachable_inv [OF assms(1)]] by auto

theorem registry_refines_its_specification_witness:
  "\<exists>s s'. reachable s \<and> step s s' \<and> spec_step (registry_of s) (registry_of s')"
proof -
  let ?s = "(demo_world, \<lambda>_ :: nat. CIdle)" and ?start = "(empty_world, \<lambda>_ :: nat. CIdle)"
  have "reachable ?start" by (rule reach_init) (auto simp: initial_def empty_world_def intro!: exI [of _ Map.empty])
  moreover have "Start demo_kernel demo_task empty_world = (Inr (named demo_task), demo_world)"
    by (simp add: demo_world_def Start_def prepare_def demo_task_def zero_task_def Let_def)
  from caller [OF call_start [OF _ this, of "snd ?start" 0]] have "step ?start ?s"
    by (simp add: demo_task_def zero_task_def)
  moreover have "status (registry_of ?s) 0 \<noteq> status (registry_of ?start) 0"
    by (simp add: registry_of_def empty_world_def)
  then have "registry_of ?s \<noteq> registry_of ?start" by auto
  ultimately show ?thesis using registry_refines_its_specification [of ?start ?s] by blast
qed

text \<open>A task keeps its id and only moves forward: it is pending, then serves, then is over, and how
  it ended never changes. This holds of the specification and so of the registry.\<close>

theorem tasks_move_forward:
  assumes "reachable (w, k)" and "cells w p = Some c" and "step\<^sup>*\<^sup>* (w, k) (w', k')"
  shows "\<exists>c'. cells w' p = Some c' \<and> ID (task c') = ID (task c) \<and> phase_of (task c) \<le> phase_of (task c')"
  using spec_steps_forward [OF steps_refine [OF assms(3) reachable_system_inv [OF assms(1)]], of p] assms(2)
  by (auto simp: registry_of_def)

theorem tasks_move_forward_witness:
  "\<exists>c. cells demo_failed 0 = Some c \<and> phase_of (task c) = Over (Some ''boom'') \<and>
     (\<forall>w k. step\<^sup>*\<^sup>* (demo_failed, \<lambda>_. CIdle) (w, k) \<longrightarrow> (\<exists>c'. cells w 0 = Some c' \<and> phase_of (task c') = Over (Some ''boom'')))"
proof -
  obtain c where c: "cells demo_failed 0 = Some c" "State (task c) = StateFailed" "Error (task c) = ''boom''"
    using demo_failed_cell by auto
  from tasks_move_forward [OF demo_failed_reachable c(1)] c show ?thesis by fastforce
qed

end
