(* ===== verification/System.thy ===== *)
theory System
  imports TaskEnds "HOL-Library.Word"
begin

text \<open>
  The state the actions share, and what they get from outside the program.

  An action runs in a goroutine of its own, so between two of its atomic sections anything else
  may happen. The state carries a count of the sections run so far, \<open>tick\<close>, and what happens
  in between is a function \<open>others\<close> of the state: as the count differs at every point, so may
  what happens there. Likewise \<open>until_done\<close> is all that happens until a task's channel is
  closed, and \<open>during\<close> all that happens while a command runs, its own effects among it.
\<close>

section \<open>Files\<close>

text \<open>
  A disk maps paths to directories and files; a file's content is either bytes or a JSON document
  the program wrote. The mode bits are left out.
\<close>

datatype content = Bytes string | Json json

datatype node = Directory | Regular content

type_synonym disk = "string \<Rightarrow> node option"

definition inside :: "string \<Rightarrow> string \<Rightarrow> bool" where
  "inside dir path \<longleftrightarrow> path = dir \<or> has_prefix path (dir @ ''/'')"

definition RemoveAll :: "string \<Rightarrow> disk \<Rightarrow> disk" where
  "RemoveAll path d = (\<lambda>p. if inside path p then None else d p)"

text \<open>
  \<^verbatim>\<open>os.Rename\<close> of a directory or a file onto a name nothing is at, or of a file onto a file.
\<close>

definition Rename :: "string \<Rightarrow> string \<Rightarrow> disk \<Rightarrow> disk" where
  "Rename old new d = (\<lambda>p. if inside new p then d (old @ drop (length new) p)
     else if inside old p then None else d p)"

text \<open>
  \<^verbatim>\<open>filepath.Clean\<close> and \<^verbatim>\<open>filepath.Join\<close>, over the elements of a path, and
  \<^verbatim>\<open>filepath.Dir\<close> of a clean path below the root directory.
\<close>

fun clean_step :: "bool \<Rightarrow> string list \<Rightarrow> string \<Rightarrow> string list" where
  "clean_step rooted st el =
     (if el = [] \<or> el = ''.'' then st
      else if el \<noteq> ''..'' then el # st
      else case st of
          [] \<Rightarrow> if rooted then [] else [''..'']
        | el' # rest \<Rightarrow> if el' = ''..'' then ''..'' # st else rest)"

definition clean_path :: "string \<Rightarrow> string" where
  "clean_path path =
     (let rooted = has_prefix path ''/'';
          st = foldl (clean_step rooted) [] (split_at_char (CHR ''/'') path)
      in if rooted then ''/'' @ join_with ''/'' (rev st)
         else if st = [] then ''.'' else join_with ''/'' (rev st))"

definition path_join :: "string list \<Rightarrow> string" where
  "path_join parts = (let given = filter (\<lambda>p. p \<noteq> []) parts
     in if given = [] then [] else clean_path (join_with ''/'' given))"

text \<open>\<^verbatim>\<open>filepath.Join\<close> of a clean path and a plain name.\<close>

definition path_add :: "string \<Rightarrow> string \<Rightarrow> string" where
  "path_add dir name = (if dir = ''/'' then ''/'' @ name else dir @ ''/'' @ name)"

definition parent_dir :: "string \<Rightarrow> string" where
  "parent_dir path = rev (tl (dropWhile (\<lambda>c. c \<noteq> CHR ''/'') (rev path)))"

fun ancestors :: "nat \<Rightarrow> string \<Rightarrow> string list" where
  "ancestors 0 path = []"
| "ancestors (Suc n) path = (if path = [] then [] else path # ancestors n (parent_dir path))"

text \<open>\<^verbatim>\<open>os.MkdirAll\<close>: the directory and its parents, those that are not there yet.\<close>

definition MkdirAll :: "string \<Rightarrow> disk \<Rightarrow> disk" where
  "MkdirAll path d = (\<lambda>p. if p \<in> set (ancestors (length path) path) \<and> d p = None
     then Some Directory else d p)"

section \<open>State and environment\<close>

record sys =
  tasks :: world
  pausing :: "string set"
  disk :: disk
  tick :: nat

record env =
  kern :: "nat \<Rightarrow> kernel"
  nanos :: "nat \<Rightarrow> int"
  others :: "sys \<Rightarrow> sys"
  until_done :: "nat \<Rightarrow> sys \<Rightarrow> sys"
  during :: "command \<Rightarrow> sys \<Rightarrow> sys"
  exec_error :: "nat \<Rightarrow> command \<Rightarrow> string option"
  fs_error :: "nat \<Rightarrow> string \<Rightarrow> string \<Rightarrow> string option"
  torn :: "nat \<Rightarrow> content \<Rightarrow> node option"
  readlink :: "nat \<Rightarrow> string \<Rightarrow> string"
  http_get :: "nat \<Rightarrow> string \<Rightarrow> string + int \<times> string \<times> (string + string)"
  rand_bytes :: "nat \<Rightarrow> 8 word list"
  getenv :: "string \<Rightarrow> string"
  environ :: "string list"
  home :: string
  platform :: string
  look_path :: "string \<Rightarrow> string"
  geteuid :: int

text \<open>
  A file operation can fail; \<open>torn\<close> is what a write that fails leaves.
\<close>

definition turn :: "env \<Rightarrow> sys \<Rightarrow> sys" where
  "turn e s = (let s = others e s in s\<lparr>tick := Suc (tick s)\<rparr>)"

section \<open>The operations of \<^verbatim>\<open>tasks\<close>, as an action calls them\<close>

definition tasks_Start :: "env \<Rightarrow> Task \<Rightarrow> sys \<Rightarrow> (string + Task) \<times> sys" where
  "tasks_Start e t s =
     (let s = turn e s; (r, w) = Start (kern e (tick s)) t (tasks s) in (r, s\<lparr>tasks := w\<rparr>))"

definition tasks_Select :: "env \<Rightarrow> string \<Rightarrow> sys \<Rightarrow> Task list \<times> sys" where
  "tasks_Select e kind s = (let s = turn e s in (Select kind (tasks s), s))"

definition tasks_IsServing :: "env \<Rightarrow> int \<Rightarrow> sys \<Rightarrow> bool \<times> sys" where
  "tasks_IsServing e port s = (let s = turn e s in (IsServing port (tasks s), s))"

definition tasks_Wait :: "env \<Rightarrow> string \<Rightarrow> sys \<Rightarrow> Task \<times> sys" where
  "tasks_Wait e key s =
     (let s = turn e s in
      case lookup (tasks s) key of
        None \<Rightarrow> (zero_task, s)
      | Some p \<Rightarrow>
         (let s = until_done e p s; (t, w) = wait_end key p (tasks s) in (t, s\<lparr>tasks := w\<rparr>)))"

definition tasks_Stop :: "env \<Rightarrow> string \<Rightarrow> sys \<Rightarrow> bool \<times> sys" where
  "tasks_Stop e key s =
     (let s = turn e s; (found, w) = stop_begin key (tasks s); s = s\<lparr>tasks := w\<rparr> in
      case found of
        None \<Rightarrow> (False, s)
      | Some p \<Rightarrow>
         (let s = turn e s; s = s\<lparr>tasks := cancel p (tasks s)\<rparr> in (True, until_done e p s)))"

fun stop_each :: "env \<Rightarrow> nat list \<Rightarrow> sys \<Rightarrow> sys" where
  "stop_each e [] s = s"
| "stop_each e (p # live) s =
     (let s = turn e s; s = s\<lparr>tasks := cancel p (tasks s)\<rparr> in stop_each e live (until_done e p s))"

definition tasks_StopAll :: "env \<Rightarrow> sys \<Rightarrow> sys" where
  "tasks_StopAll e s =
     (let s = turn e s; (live, w) = stop_all_begin (tasks s) in stop_each e live (s\<lparr>tasks := w\<rparr>))"

text \<open>\<^verbatim>\<open>tasks.Exec\<close>: the error of starting the command or of waiting for it.\<close>

definition tasks_Exec :: "env \<Rightarrow> command \<Rightarrow> sys \<Rightarrow> string option \<times> sys" where
  "tasks_Exec e cmd s =
     (let s = turn e s; err = exec_error e (tick s) cmd in (err, during e cmd s))"

section \<open>The operations of \<^verbatim>\<open>os\<close> on files\<close>

definition os_Exists :: "env \<Rightarrow> string \<Rightarrow> sys \<Rightarrow> bool \<times> sys" where
  "os_Exists e path s = (let s = turn e s in (disk s path \<noteq> None, s))"

definition os_MkdirAll :: "env \<Rightarrow> string \<Rightarrow> sys \<Rightarrow> string option \<times> sys" where
  "os_MkdirAll e path s =
     (let s = turn e s in
      case fs_error e (tick s) ''mkdir'' path of
        Some err \<Rightarrow> (Some err, s)
      | None \<Rightarrow> (None, s\<lparr>disk := MkdirAll path (disk s)\<rparr>))"

definition os_WriteFile :: "env \<Rightarrow> string \<Rightarrow> content \<Rightarrow> sys \<Rightarrow> string option \<times> sys" where
  "os_WriteFile e path data s =
     (let s = turn e s in
      case fs_error e (tick s) ''write'' path of
        Some err \<Rightarrow> (Some err, s\<lparr>disk := (disk s)(path := torn e (tick s) data)\<rparr>)
      | None \<Rightarrow> (None, s\<lparr>disk := (disk s)(path \<mapsto> Regular data)\<rparr>))"

definition os_ReadFile :: "env \<Rightarrow> string \<Rightarrow> sys \<Rightarrow> content option \<times> sys" where
  "os_ReadFile e path s =
     (let s = turn e s in
      (case (fs_error e (tick s) ''read'' path, disk s path) of
         (None, Some (Regular data)) \<Rightarrow> Some data
       | _ \<Rightarrow> None, s))"

definition os_Remove :: "env \<Rightarrow> string \<Rightarrow> sys \<Rightarrow> sys" where
  "os_Remove e path s =
     (let s = turn e s in
      if fs_error e (tick s) ''remove'' path = None then s\<lparr>disk := (disk s)(path := None)\<rparr> else s)"

definition os_RemoveAll :: "env \<Rightarrow> string \<Rightarrow> sys \<Rightarrow> sys" where
  "os_RemoveAll e path s =
     (let s = turn e s in
      if fs_error e (tick s) ''remove'' path = None then s\<lparr>disk := RemoveAll path (disk s)\<rparr> else s)"

definition os_Rename :: "env \<Rightarrow> string \<Rightarrow> string \<Rightarrow> sys \<Rightarrow> string option \<times> sys" where
  "os_Rename e old new s =
     (let s = turn e s in
      if disk s old = None then (Some (''rename '' @ old @ '' '' @ new @ '': no such file or directory''), s)
      else case fs_error e (tick s) ''rename'' new of
          Some err \<Rightarrow> (Some err, s)
        | None \<Rightarrow> (None, s\<lparr>disk := Rename old new (disk s)\<rparr>))"

section \<open>What the rest of the program can do\<close>

text \<open>
  A registry is consistent when it occurs in a system whose invariant holds and that has callers
  to spare. The rest of the program makes moves of the step relation from there; a blocking wait
  ends with the task's channel closed.
\<close>

definition spare :: "(nat \<Rightarrow> cpc) \<Rightarrow> bool" where
  "spare k \<longleftrightarrow> infinite {i. k i = CIdle}"

definition consistent :: "world \<Rightarrow> bool" where
  "consistent w \<longleftrightarrow> (\<exists>k. system_inv (w, k) \<and> spare k)"

definition moves :: "world \<Rightarrow> world \<Rightarrow> bool" where
  "moves w w' \<longleftrightarrow> (\<exists>k k'. system_inv (w, k) \<and> spare k \<and> step\<^sup>*\<^sup>* (w, k) (w', k'))"

definition sound_env :: "env \<Rightarrow> bool" where
  "sound_env e \<longleftrightarrow>
     (\<forall>s. consistent (tasks s) \<longrightarrow> moves (tasks s) (tasks (others e s))) \<and>
     (\<forall>s p. consistent (tasks s) \<and> cells (tasks s) p \<noteq> None \<longrightarrow>
        moves (tasks s) (tasks (until_done e p s)) \<and> is_finished (tasks (until_done e p s)) p) \<and>
     (\<forall>cmd s. consistent (tasks s) \<longrightarrow> moves (tasks s) (tasks (during e cmd s)))"

lemma spare_upd: "spare k \<Longrightarrow> spare (k(i := x))"
proof -
  assume "spare k"
  then have "infinite ({j. k j = CIdle} - {i})" by (simp add: spare_def)
  moreover have "{j. k j = CIdle} - {i} \<subseteq> {j. (k(i := x)) j = CIdle}" by auto
  ultimately show ?thesis unfolding spare_def by (rule infinite_super [rotated])
qed

lemma spare_idle: "spare k \<Longrightarrow> \<exists>i. k i = CIdle"
  unfolding spare_def by (metis (mono_tags, lifting) empty_Collect_eq finite.emptyI)

lemma step_spare: "step s s' \<Longrightarrow> spare (snd s) \<Longrightarrow> spare (snd s')"
  by (auto elim!: step.cases cstep.cases intro: spare_upd)

lemma steps_spare: "step\<^sup>*\<^sup>* s s' \<Longrightarrow> spare (snd s) \<Longrightarrow> spare (snd s')"
  by (induction rule: rtranclp_induct) (auto dest: step_spare)

lemma consistentI: "system_inv (w, k) \<Longrightarrow> spare k \<Longrightarrow> consistent w"
  by (auto simp: consistent_def)

lemma steps_consistent:
  "step\<^sup>*\<^sup>* (w, k) (w', k') \<Longrightarrow> system_inv (w, k) \<Longrightarrow> spare k \<Longrightarrow> consistent w'"
  using tasks.steps_inv [of "(w, k)" "(w', k')"] steps_spare [of "(w, k)" "(w', k')"]
  by (auto intro: consistentI)

lemma moves_consistent: "moves w w' \<Longrightarrow> consistent w'"
  unfolding moves_def by (blast intro: steps_consistent)

lemma moves_grow: "moves w w' \<Longrightarrow> grows w w'"
  unfolding moves_def using steps_grow by fastforce

lemma moves_refl: "consistent w \<Longrightarrow> moves w w"
  by (auto simp: consistent_def moves_def)

lemma gsteps_move: "consistent w \<Longrightarrow> (gstep p)\<^sup>*\<^sup>* w w' \<Longrightarrow> moves w w'"
  unfolding consistent_def moves_def using gsteps_steps by blast

lemma consistent_cell: "consistent w \<Longrightarrow> cells w p = Some c \<Longrightarrow> cell_ok c"
  by (auto simp: consistent_def intro: inv_cell_ok)

lemma consistent_lookup:
  "consistent w \<Longrightarrow> lookup w key = Some p \<Longrightarrow> \<exists>c. cells w p = Some c \<and> ID (task c) = key"
  by (auto simp: consistent_def dest: inv_lookup)

lemma empty_consistent: "consistent empty_world"
proof (rule consistentI)
  show "system_inv (empty_world, \<lambda>_. CIdle)"
    by (rule initial_inv) (auto simp: initial_def empty_world_def intro!: exI [of _ Map.empty])
  show "spare (\<lambda>_. CIdle)" by (simp add: spare_def)
qed

text \<open>The sections of an action keep the registry consistent.\<close>

lemma Start_consistent:
  assumes "consistent w" and "Start kn t w = (r, w')" and "Kind t \<noteq> []" and "Work t \<noteq> NoWork"
    and "State t = StateNone" and "Error t = []"
  shows "consistent w'"
proof -
  obtain k i where k: "system_inv (w, k)" "spare k" "k i = CIdle"
    using assms(1) spare_idle unfolding consistent_def by blast
  have "cstep (w, k) (w', k)"
    using assms k by (cases r) (auto intro: call_start call_start_fails)
  from cstep_inv [OF this k(1)] k(2) show ?thesis by (rule consistentI)
qed

lemma wait_end_consistent:
  assumes "consistent w" and "cells w p = Some c" and "finished c" and "ID (task c) = key"
    and "wait_end key p w = (t, w')"
  shows "consistent w'"
proof -
  obtain k i where k: "system_inv (w, k)" "spare k" "k i = CIdle"
    using assms(1) spare_idle unfolding consistent_def by blast
  let ?k = "k(i := CWaiting key p)"
  have "system_inv (w, ?k)"
    by (rule caller_waits [OF k(1)]) (use k(3) assms(2,4) in auto)
  moreover have "cstep (w, ?k) (w', ?k(i := CWaited t))"
    by (rule wait_ends [where c = c and p = p]) (use assms in auto)
  ultimately show ?thesis
    using cstep_inv k(2) by (blast intro: consistentI spare_upd)
qed

lemma unlist_consistent:
  assumes "consistent w"
  shows "consistent (unlist key w)"
proof -
  obtain k i where k: "system_inv (w, k)" "spare k" "k i = CIdle"
    using assms spare_idle unfolding consistent_def by blast
  show ?thesis
  proof (cases "lookup w key")
    case None
    with assms show ?thesis by (simp add: unlist_absent)
  next
    case (Some p)
    with k have "system_inv (unlist key w, k(i := CStopping p))"
      by (intro unlist_inv) (auto dest: inv_lookup)
    with k(2) show ?thesis by (blast intro: consistentI spare_upd)
  qed
qed

lemma cancel_consistent:
  assumes "consistent w"
  shows "consistent (cancel p w)"
proof -
  obtain k where k: "system_inv (w, k)" "spare k" using assms by (auto simp: consistent_def)
  have g: "grows w (cancel p w)" by (rule grows_cancel)
  have "system_inv (cancel p w, k)"
  proof (rule inv_same_reg [OF k(1) g])
    show "length (Failed (cancel p w)) \<le> 1" using k(1) by (simp add: system_inv_def)
    show "caller_ok (cancel p w) (k i)" for i
      using inv_caller [OF k(1)] by (rule caller_ok_grows [OF g])
  qed simp_all
  then show ?thesis using k(2) by (rule consistentI)
qed

subsection \<open>Between the sections\<close>

lemma turn_simps [simp]:
  "tasks (turn e s) = tasks (others e s)" "pausing (turn e s) = pausing (others e s)"
  "tick (turn e s) = Suc (tick (others e s))" "disk (turn e s) = disk (others e s)"
  by (simp_all add: turn_def Let_def)

lemma turn_moves: "sound_env e \<Longrightarrow> consistent (tasks s) \<Longrightarrow> moves (tasks s) (tasks (others e s))"
  by (auto simp: sound_env_def)

lemma turn_consistent: "sound_env e \<Longrightarrow> consistent (tasks s) \<Longrightarrow> consistent (tasks (others e s))"
  by (blast dest: turn_moves moves_consistent)

lemma turn_cell:
  "sound_env e \<Longrightarrow> consistent (tasks s) \<Longrightarrow> cells (tasks s) p = Some c \<Longrightarrow>
     \<exists>c'. cells (tasks (others e s)) p = Some c' \<and> cell_grows c c'"
  by (blast dest: turn_moves moves_grow growsD)

lemma until_done_ends:
  assumes "sound_env e" and "consistent (tasks s)" and "cells (tasks s) p = Some c"
  shows "consistent (tasks (until_done e p s))"
    and "\<exists>c'. cells (tasks (until_done e p s)) p = Some c' \<and> cell_grows c c' \<and> finished c' \<and>
      State (task c') \<in> {StateFailed, StateExited}"
proof -
  have m: "moves (tasks s) (tasks (until_done e p s))"
    using assms by (auto simp: sound_env_def)
  show con: "consistent (tasks (until_done e p s))" by (rule moves_consistent [OF m])
  from moves_grow [OF m] assms(3) obtain c' where
    c': "cells (tasks (until_done e p s)) p = Some c'" "cell_grows c c'" by (blast dest: growsD)
  moreover have "is_finished (tasks (until_done e p s)) p"
    using assms by (auto simp: sound_env_def)
  then have "finished c'" using c'(1) by (simp add: is_finished_def)
  ultimately show "\<exists>c'. cells (tasks (until_done e p s)) p = Some c' \<and> cell_grows c c' \<and> finished c' \<and>
      State (task c') \<in> {StateFailed, StateExited}"
    using finished_facts [OF consistent_cell [OF con]] by blast
qed

text \<open>The end of a finished task stays what it is.\<close>

lemma turn_ended:
  assumes "sound_env e" and "consistent (tasks s)" and "cells (tasks s) p = Some c" and "finished c"
  shows "\<exists>c'. cells (tasks (others e s)) p = Some c' \<and> finished c' \<and> task c' = task c"
proof -
  obtain c' where "cells (tasks (others e s)) p = Some c'" "cell_grows c c'"
    using turn_cell [OF assms(1-3)] by blast
  moreover note finished_facts [OF consistent_cell [OF assms(2,3)] assms(4)]
  moreover have "cell_ok c" by (rule consistent_cell [OF assms(2,3)])
  ultimately show ?thesis using assms(4) by (auto simp: cell_grows_def)
qed

subsection \<open>\<^verbatim>\<open>StopAll\<close> as a whole\<close>

lemma stop_all_begin_consistent:
  assumes "consistent w" and "stop_all_begin w = (live, w')"
  shows "consistent w'"
proof -
  obtain k i where k: "system_inv (w, k)" "spare k" "k i = CIdle"
    using assms(1) spare_idle unfolding consistent_def by blast
  have "system_inv (w, k(i := CAll))"
    using call_stop_all [of k i w] k by (blast intro: cstep_inv)
  moreover have "cstep (w, k(i := CAll)) (w', k(i := CAll, i := CAllNext live live))"
    by (rule all_cleared) (use assms(2) in auto)
  ultimately show ?thesis
    using cstep_inv k(2) by (blast intro: consistentI spare_upd)
qed

lemma stop_each_step:
  assumes "sound_env e" and "consistent (tasks s)" and "cells (tasks s) p \<noteq> None"
    and "s' = until_done e p (turn e s\<lparr>tasks := cancel p (tasks (turn e s))\<rparr>)"
  shows "consistent (tasks s') \<and> grows (tasks s) (tasks s') \<and> is_finished (tasks s') p"
proof -
  obtain s1 where s1: "s1 = turn e s\<lparr>tasks := cancel p (tasks (turn e s))\<rparr>" by simp
  then have t1: "tasks s1 = cancel p (tasks (others e s))" by simp
  note g = moves_grow [OF turn_moves [OF assms(1,2)]]
  obtain c where "cells (tasks s) p = Some c" using assms(3) by auto
  with growsD [OF g] obtain c1 where "cells (tasks (others e s)) p = Some c1" by blast
  with growsD [OF grows_cancel, of "tasks (others e s)" p c1] have "cells (tasks s1) p \<noteq> None" by (auto simp: t1)
  moreover have "consistent (tasks s1)"
    using cancel_consistent [OF turn_consistent [OF assms(1,2)]] by (simp add: t1)
  moreover have "s' = until_done e p s1" using assms(4) by (simp only: s1)
  ultimately have m: "moves (tasks s1) (tasks s')" and "is_finished (tasks s') p"
    using assms(1) unfolding sound_env_def by blast+
  moreover have "grows (tasks s) (tasks s1)"
    using grows_trans [OF g grows_cancel] by (simp only: t1)
  ultimately show ?thesis
    using moves_grow [OF m] moves_consistent [OF m] grows_trans by blast
qed

lemma stop_each_finishes:
  assumes "sound_env e"
  shows "consistent (tasks s) \<Longrightarrow> \<forall>p\<in>set live. cells (tasks s) p \<noteq> None \<Longrightarrow>
     consistent (tasks (stop_each e live s)) \<and> grows (tasks s) (tasks (stop_each e live s)) \<and>
     (\<forall>p\<in>set live. is_finished (tasks (stop_each e live s)) p)"
proof (induction live arbitrary: s)
  case (Cons p live)
  obtain s1 where s1: "s1 = until_done e p (turn e s\<lparr>tasks := cancel p (tasks (turn e s))\<rparr>)" by simp
  have one: "consistent (tasks s1) \<and> grows (tasks s) (tasks s1) \<and> is_finished (tasks s1) p"
    by (rule stop_each_step [OF assms Cons.prems(1) _ s1]) (use Cons.prems(2) in simp)
  then have "\<forall>q\<in>set live. cells (tasks s1) q \<noteq> None"
    using Cons.prems(2) growsD [of "tasks s" "tasks s1"] by fastforce
  with one have "consistent (tasks (stop_each e live s1)) \<and> grows (tasks s1) (tasks (stop_each e live s1)) \<and>
     (\<forall>q\<in>set live. is_finished (tasks (stop_each e live s1)) q)"
    by (intro Cons.IH) auto
  moreover have "stop_each e (p # live) s = stop_each e live s1" by (simp add: s1 Let_def)
  ultimately show ?case using one grows_trans is_finished_grows by (metis set_ConsD)
qed simp

lemma StopAll_finishes:
  assumes "sound_env e" and "consistent (tasks s)" and "lookup (tasks (others e s)) key = Some p"
  shows "\<exists>c. cells (tasks (tasks_StopAll e s)) p = Some c \<and> finished c \<and> ID (task c) = key \<and>
    State (task c) \<in> {StateFailed, StateExited}"
proof -
  let ?w = "tasks (others e s)"
  note con = turn_consistent [OF assms(1,2)]
  let ?s = "turn e s\<lparr>tasks := ?w\<lparr>reg := []\<rparr>\<rparr>"
  have all: "tasks_StopAll e s = stop_each e (map snd (reg ?w)) ?s"
    by (simp add: tasks_StopAll_def stop_all_begin_def Let_def)
  have "cells ?w q \<noteq> None" if "q \<in> set (map snd (reg ?w))" for q
    using con that inv_lookup by (fastforce simp: consistent_def system_inv_def reg_ok_def lookup_def)
  moreover have "consistent (tasks ?s)"
    using stop_all_begin_consistent [OF con] by (simp add: stop_all_begin_def)
  ultimately have end': "consistent (tasks (tasks_StopAll e s))" "grows ?w (tasks (tasks_StopAll e s))"
      "\<forall>q\<in>set (map snd (reg ?w)). is_finished (tasks (tasks_StopAll e s)) q"
    using stop_each_finishes [OF assms(1), of ?s "map snd (reg ?w)"] unfolding all grows_def by auto
  obtain c0 where c0: "cells ?w p = Some c0" "ID (task c0) = key"
    using consistent_lookup [OF con assms(3)] by blast
  from growsD [OF end'(2) c0(1)] obtain c where
    c: "cells (tasks (tasks_StopAll e s)) p = Some c" "cell_grows c0 c" by blast
  have "p \<in> set (map snd (reg ?w))"
    using assms(3) by (force simp: lookup_def dest: map_of_SomeD)
  with end'(3) c(1) have "finished c" by (auto simp: is_finished_def)
  with finished_facts [OF consistent_cell [OF end'(1) c(1)]] c c0(2) show ?thesis
    by (auto simp: cell_grows_def)
qed

section \<open>An environment in which nothing else happens\<close>

text \<open>
  Commands start and end with the result \<open>r\<close>, files can be written, and downloads succeed.
\<close>

definition quiet_env :: "string option \<Rightarrow> env" where
  "quiet_env r = \<lparr>
     kern = (\<lambda>_. \<lparr>listen_tcp = (\<lambda>_. Inr (loopback 8080)), unix_error = (\<lambda>_. None),
       chmod_error = (\<lambda>_. None), removable = (\<lambda>_. True), socket_mode = 493\<rparr>),
     nanos = (\<lambda>_. 1), others = (\<lambda>s. s),
     until_done = (\<lambda>p s. s\<lparr>tasks := (advance r p ^^ 29) (tasks s)\<rparr>),
     during = (\<lambda>cmd s. s), exec_error = (\<lambda>_ _. r), fs_error = (\<lambda>_ _ _. None),
     torn = (\<lambda>_ _. None), readlink = (\<lambda>_ _. ''/dev/null''),
     http_get = (\<lambda>_ _. Inr (200, ''200 OK'', Inr ''binary'')), rand_bytes = (\<lambda>_. replicate 32 0),
     getenv = (\<lambda>_. []), environ = [], home = ''/home/u'', platform = ''linux/amd64'',
     look_path = (\<lambda>name. ''/usr/bin/'' @ name), geteuid = 0\<rparr>"

lemma quiet_env_simps [simp]:
  "others (quiet_env r) s = s" "during (quiet_env r) cmd s = s"
  "until_done (quiet_env r) p s = s\<lparr>tasks := (advance r p ^^ 29) (tasks s)\<rparr>"
  "nanos (quiet_env r) n = 1" "exec_error (quiet_env r) n cmd = r" "fs_error (quiet_env r) n op path = None"
  "home (quiet_env r) = ''/home/u''" "platform (quiet_env r) = ''linux/amd64''"
  "getenv (quiet_env r) v = []" "environ (quiet_env r) = []" "geteuid (quiet_env r) = 0"
  "look_path (quiet_env r) name = ''/usr/bin/'' @ name" "readlink (quiet_env r) n l = ''/dev/null''"
  by (simp_all add: quiet_env_def)

lemma quiet_sound: "sound_env (quiet_env r)"
proof -
  have "moves (tasks s) ((advance r p ^^ 29) (tasks s)) \<and> is_finished ((advance r p ^^ 29) (tasks s)) p"
    if con: "consistent (tasks s)" and "cells (tasks s) p = Some c" for s p c
    using advance_finishes [OF that(2) consistent_cell [OF that] rank_bound] gsteps_move [OF con] by blast
  then show ?thesis by (auto simp: sound_env_def moves_refl)
qed

end
