(* ===== verification/Servers.thy ===== *)
theory Servers
  imports System
begin

text \<open>
  \<^verbatim>\<open>internal/servers/servers.go\<close>: the actions the subsystems share, over the registry as the rest
  of the program changes it in between.
\<close>

definition Process :: string where
  "Process = ''process''"

definition servers_Select :: "env \<Rightarrow> string \<Rightarrow> sys action" where
  "servers_Select e kind = (\<lambda>params s.
     let (listed, s) = tasks_Select e kind s in ((200, JArr (map MarshalJSON listed), []), s))"

definition process_task :: "int \<Rightarrow> Task \<Rightarrow> string list \<Rightarrow> Task" where
  "process_task now t args =
     t\<lparr>ID := cmp_or [] (ID t) (hd (Kind t) # ''-'' @ itoa now),
       Attrs := Some [(''command'', join_with '' '' args)],
       Work := ChildWork \<lparr>argv = args, Dir = [], Env = []\<rparr>\<rparr>"

definition servers_Start :: "env \<Rightarrow> Task \<Rightarrow> string list \<Rightarrow> sys \<Rightarrow> Task \<times> sys" where
  "servers_Start e t args s =
     (case tasks_Start e (process_task (nanos e (tick s)) t args) s of
        (Inr created, s) \<Rightarrow> (created, s)
      | (Inl _, s) \<Rightarrow> (zero_task, s))"

definition servers_Stop :: "env \<Rightarrow> sys action" where
  "servers_Stop e = (\<lambda>params s.
     let key = Str params ''id''; (found, s) = tasks_Stop e key s in
     if \<not> found then ((404, JNull, ''unknown id '' @ key), s)
     else ((200, obj [(''id'', JStr key), (''state'', JStr ''stopped'')], []), s))"

definition Pausing :: "env \<Rightarrow> string \<Rightarrow> bool \<Rightarrow> sys \<Rightarrow> sys" where
  "Pausing e key on s =
     (let s = turn e s
      in s\<lparr>pausing := (if on then insert key (pausing s) else pausing s - {key})\<rparr>)"

definition servers_Wait :: "env \<Rightarrow> string \<Rightarrow> sys \<Rightarrow> (Task \<times> bool) \<times> sys" where
  "servers_Wait e key s =
     (let (ended, s) = tasks_Wait e key s; s = turn e s; paused = (key \<in> pausing s)
      in ((ended, paused), s\<lparr>pausing := pausing s - {key}\<rparr>))"

definition servers_Run :: "env \<Rightarrow> Task \<Rightarrow> string list \<Rightarrow> sys \<Rightarrow> answer \<times> sys" where
  "servers_Run e t args s =
     (let (created, s) = servers_Start e t args s;
          ((ended, paused), s) = servers_Wait e (ID created) s in
      if paused then ((202, MarshalJSON ended, []), s)
      else if State ended \<noteq> StateExited then ((500, JNull, Error ended), s)
      else ((200, MarshalJSON ended, []), s))"

definition Serve :: "env \<Rightarrow> Task \<Rightarrow> sys \<Rightarrow> answer \<times> sys" where
  "Serve e t s = (case tasks_Start e t s of
       (Inl err, s) \<Rightarrow> ((500, JNull, err), s)
     | (Inr created, s) \<Rightarrow> ((201, MarshalJSON created, []), s))"


section \<open>A process\<close>

lemma process_task_simps [simp]:
  "Kind (process_task now t args) = Kind t" "Addr (process_task now t args) = Addr t"
  "State (process_task now t args) = State t" "Error (process_task now t args) = Error t"
  "Pid (process_task now t args) = Pid t"
  "Work (process_task now t args) = ChildWork \<lparr>argv = args, Dir = [], Env = []\<rparr>"
  "Attrs (process_task now t args) = Some [(''command'', join_with '' '' args)]"
  "ID (process_task now t args) = cmp_or [] (ID t) (hd (Kind t) # ''-'' @ itoa now)"
  by (simp_all add: process_task_def)

definition process_started :: "env \<Rightarrow> Task \<Rightarrow> string list \<Rightarrow> sys \<Rightarrow> Task" where
  "process_started e t args s = named (prepare (process_task (nanos e (tick s)) t args))"

lemma process_started_simps:
  "State (process_started e t args s) = StateStarting" "Kind (process_started e t args s) = Kind t"
  "Pid (process_started e t args s) = Pid t" "Error (process_started e t args s) = Error t" "Addr (process_started e t args s) = Addr t"
  "Work (process_started e t args s) = ChildWork \<lparr>argv = args, Dir = [], Env = []\<rparr>"
  "Attrs (process_started e t args s) = Some [(''command'', join_with '' '' args)]"
  "ID (process_started e t args s) = cmp_or [] (ID t) (hd (Kind t) # ''-'' @ itoa (nanos e (tick s)))"
  by (simp_all add: process_started_def named_def prepare_def cmp_or_def)

lemma servers_Start_eq:
  assumes "Addr t = []"
  shows "servers_Start e t args s =
    (process_started e t args s, (turn e s)\<lparr>tasks := register (process_started e t args s) (tasks (others e s))\<rparr>)"
  using assms
  by (simp add: servers_Start_def tasks_Start_def Start_def Let_def prepare_def process_started_def)

lemma process_started_consistent:
  assumes "sound_env e" and "consistent (tasks s)" and "Addr t = []" and "Kind t \<noteq> []"
    and "State t = StateNone" and "Error t = []"
  shows "consistent (register (process_started e t args s) (tasks (others e s)))"
proof (rule Start_consistent [OF turn_consistent [OF assms(1,2)]])
  show "Start kn (process_task (nanos e (tick s)) t args) (tasks (others e s)) =
      (Inr (process_started e t args s), register (process_started e t args s) (tasks (others e s)))" for kn
    using assms(3) by (simp add: Start_def Let_def prepare_def process_started_def)
qed (use assms in simp_all)

text \<open>A wait for a listed task answers its end.\<close>

lemma tasks_Wait_ends:
  assumes env: "sound_env e" and con: "consistent (tasks s)" and c0: "cells (tasks s) p = Some c0"
    and look: "lookup (tasks (others e s)) key = Some p"
  shows "\<exists>c s'. tasks_Wait e key s = (task c, s') \<and> consistent (tasks s') \<and> cells (tasks s') p = Some c \<and>
    finished c \<and> State (task c) \<in> {StateFailed, StateExited} \<and> cell_grows c0 c"
proof -
  let ?s = "turn e s"
  have con1: "consistent (tasks ?s)" using turn_consistent [OF env con] by simp
  obtain c1 where c1: "cells (tasks ?s) p = Some c1" "cell_grows c0 c1"
    using turn_cell [OF env con c0] by auto
  let ?s2 = "until_done e p ?s"
  obtain c where con2: "consistent (tasks ?s2)" and c: "cells (tasks ?s2) p = Some c" "cell_grows c1 c" "finished c"
    "State (task c) \<in> {StateFailed, StateExited}"
    using until_done_ends [OF env con1 c1(1)] by blast
  obtain ended w where w: "wait_end key p (tasks ?s2) = (ended, w)" by (rule prod.exhaust)
  have ended: "ended = task c" "cells w p = Some c"
    using wait_end_releases(4,5) [OF w] c(1) by simp_all
  obtain c2 where "cells (tasks ?s) p = Some c2" "ID (task c2) = key"
    using consistent_lookup [OF con1] look by auto
  with c1(1) c(2) have id: "ID (task c) = key" by (simp add: cell_grows_def)
  have "consistent w" by (rule wait_end_consistent [OF con2 c(1,3) id w])
  moreover have "tasks_Wait e key s = (task c, ?s2\<lparr>tasks := w\<rparr>)"
    using look w by (simp add: tasks_Wait_def ended(1) Let_def)
  ultimately show ?thesis
    using ended(2) c(3,4) cell_grows_trans [OF c1(2) c(2)]
    by (intro exI [of _ c] exI [of _ "?s2\<lparr>tasks := w\<rparr>"]) simp
qed

text \<open>\<open>Run\<close> answers the end of the task it started, as long as that stays listed until it is waited for.\<close>

lemma servers_Run_own_end:
  assumes env: "sound_env e" and con: "consistent (tasks s)"
    and t: "Addr t = []" "Kind t \<noteq> []" "State t = StateNone" "Error t = []"
    and start: "servers_Start e t args s = (created, s1)"
    and kept: "lookup (tasks (turn e s1)) (ID created) = lookup (tasks s1) (ID created)"
  shows "\<exists>status body msg sw s' p c. servers_Run e t args s = ((status, body, msg), s') \<and>
    lookup (tasks s1) (ID created) = Some p \<and> cells (tasks s') p = Some c \<and> finished c \<and>
    ID (task c) = ID created \<and> Kind (task c) = Kind t \<and> Attrs (task c) = Attrs created \<and>
    s' = sw\<lparr>pausing := pausing sw - {ID created}\<rparr> \<and>
    (status = 202 \<longleftrightarrow> ID created \<in> pausing sw) \<and>
    (status \<noteq> 500 \<longrightarrow> body = MarshalJSON (task c) \<and> msg = []) \<and>
    (status = 200 \<longrightarrow> State (task c) = StateExited) \<and>
    (status = 500 \<longrightarrow> State (task c) = StateFailed \<and> body = JNull \<and> msg = Error (task c)) \<and>
    status \<in> {200, 202, 500}"
proof -
  let ?p = "nextp (tasks (others e s))" and ?key = "ID created"
  note con1 = process_started_consistent [OF env con t]
  have s1: "tasks s1 = register created (tasks (others e s))" and con1: "consistent (tasks s1)"
    and kind: "Kind created = Kind t"
    using start con1 by (auto simp: servers_Start_eq [OF t(1)] process_started_simps)
  have look: "lookup (tasks s1) ?key = Some ?p" "lookup (tasks (others e s1)) ?key = Some ?p"
    using kept by (simp_all add: s1 lookup_register)
  have "cells (tasks s1) ?p = Some (new_cell created)" by (simp add: s1 cells_register)
  from tasks_Wait_ends [OF env con1 this look(2)] obtain c s2 where
    w: "tasks_Wait e ?key s1 = (task c, s2)" "consistent (tasks s2)" "cells (tasks s2) ?p = Some c" "finished c"
    and state: "State (task c) \<in> {StateFailed, StateExited}" and grown: "cell_grows (new_cell created) c" by blast
  have id: "ID (task c) = ?key" "Kind (task c) = Kind t" "Attrs (task c) = Attrs created"
    using grown kind by (simp_all add: cell_grows_def new_cell_def)
  let ?sw = "turn e s2"
  let ?s' = "?sw\<lparr>pausing := pausing ?sw - {?key}\<rparr>"
  obtain c' where c': "cells (tasks ?s') ?p = Some c'" "finished c'" "task c' = task c"
    using turn_ended [OF env w(2-4)] by auto
  have run: "servers_Run e t args s = ((if ?key \<in> pausing ?sw then (202, MarshalJSON (task c), [])
      else if State (task c) \<noteq> StateExited then (500, JNull, Error (task c))
      else (200, MarshalJSON (task c), [])), ?s')"
    by (simp add: servers_Run_def start servers_Wait_def w(1) Let_def del: turn_simps)
  obtain status body msg where ans: "(if ?key \<in> pausing ?sw then (202, MarshalJSON (task c), [])
      else if State (task c) \<noteq> StateExited then (500, JNull, Error (task c))
      else (200, MarshalJSON (task c), [])) = (status :: int, body, msg)" by (rule prod_cases3)
  have final: "status = 202 \<longleftrightarrow> ?key \<in> pausing ?sw"
    "status \<noteq> 500 \<longrightarrow> body = MarshalJSON (task c') \<and> msg = []"
    "status = 200 \<longrightarrow> State (task c') = StateExited"
    "status = 500 \<longrightarrow> State (task c') = StateFailed \<and> body = JNull \<and> msg = Error (task c')"
    "status \<in> {200, 202, 500}"
    using ans state unfolding c'(3) by (auto split: if_splits)
  have "servers_Run e t args s = ((status, body, msg), ?s')" using run by (simp only: ans)
  moreover have "ID (task c') = ?key" "Kind (task c') = Kind t" "Attrs (task c') = Attrs created"
    using id c'(3) by simp_all
  ultimately show ?thesis
    by (intro exI [of _ status] exI [of _ body] exI [of _ msg] exI [of _ ?sw] exI [of _ ?s']
        exI [of _ ?p] exI [of _ c'] conjI look(1) c'(1,2) refl final)
qed

section \<open>Properties\<close>

text \<open>Starting a process cannot fail, whatever the kernel answers: it is listed as starting by the
  time \<^verbatim>\<open>Start\<close> returns, under the id the request chose or else its kind's initial and the time,
  with its command line, and no other id names anything else than before.\<close>

theorem servers_Start_lists_process:
  assumes "Addr t = []" and "servers_Start e t args s = (created, s')"
  shows "ID created = cmp_or [] (ID t) (hd (Kind t) # ''-'' @ itoa (nanos e (tick s))) \<and>
    State created = StateStarting \<and> Kind created = Kind t \<and> Addr created = [] \<and>
    Attrs created = Some [(''command'', join_with '' '' args)] \<and>
    Work created = ChildWork \<lparr>argv = args, Dir = [], Env = []\<rparr> \<and>
    (\<exists>p. lookup (tasks s') (ID created) = Some p \<and> cells (tasks s') p = Some (new_cell created)) \<and>
    (\<forall>key. key \<noteq> ID created \<longrightarrow> lookup (tasks s') key = lookup (tasks (turn e s)) key)"
  using assms(2) unfolding servers_Start_eq [OF assms(1)]
  by (auto simp: process_started_simps assms(1) lookup_register cells_register)

theorem servers_Start_lists_process_witness:
  "\<exists>created s'. servers_Start (quiet_env None) (zero_task\<lparr>Kind := Process\<rparr>) [''sh'', ''-c'', ''true'']
       \<lparr>tasks = empty_world, pausing = {}, disk = Map.empty, tick = 0\<rparr> = (created, s') \<and>
     ID created = ''p-1'' \<and> lookup (tasks s') ''p-1'' \<noteq> None"
proof -
  let ?t = "zero_task\<lparr>Kind := Process\<rparr>"
  let ?s = "\<lparr>tasks = empty_world, pausing = {}, disk = Map.empty, tick = 0\<rparr>"
  obtain created s' where r: "servers_Start (quiet_env None) ?t [''sh'', ''-c'', ''true''] ?s = (created, s')"
    by (rule prod.exhaust)
  have "Addr ?t = []" by (simp add: zero_task_def)
  note th = servers_Start_lists_process [OF this r]
  have "cmp_or [] (ID ?t) (hd (Kind ?t) # ''-'' @ itoa 1) = ''p-1''"
    by (simp add: zero_task_def Process_def itoa_def utoa_digit digit_char_def)
  with th have key: "ID created = ''p-1''" by simp
  from th obtain p where "lookup (tasks s') (ID created) = Some p" by blast
  with key have "lookup (tasks s') ''p-1'' = Some p" by simp
  with key show ?thesis by (intro exI [of _ created] exI [of _ s'] conjI) (simp_all add: r)
qed



text \<open>A process stopped between its start and the wait for it is answered 500 with an empty
  message, which the writer sends as the JSON \<^verbatim>\<open>null\<close> and not in the error shape.\<close>

theorem servers_Run_stopped_before_the_wait:
  assumes "servers_Start e t args s = (created, s1)" and "lookup (tasks (turn e s1)) (ID created) = None"
    and "ID created \<notin> pausing (turn e (turn e s1))"
  shows "fst (servers_Run e t args s) = (500, JNull, []) \<and> payload (write_response 500 JNull []) = JNull"
  using assms
  by (simp add: servers_Run_def servers_Wait_def tasks_Wait_def zero_task_def write_response_def Let_def)

text \<open>The rest of the program, of which a request to stop the id runs next.\<close>

definition stopping_env :: "string \<Rightarrow> env" where
  "stopping_env key = (quiet_env None)\<lparr>others := (\<lambda>s. if tick s = 1 then s\<lparr>tasks := unlist key (tasks s)\<rparr> else s)\<rparr>"

theorem servers_Run_stopped_before_the_wait_witness:
  "fst (servers_Run (stopping_env ''p'') (zero_task\<lparr>Kind := Process, ID := ''p''\<rparr>) [''true'']
       \<lparr>tasks = empty_world, pausing = {}, disk = Map.empty, tick = 0\<rparr>) = (500, JNull, [])"
proof -
  let ?e = "stopping_env ''p''" and ?t = "zero_task\<lparr>Kind := Process, ID := ''p''\<rparr>"
  let ?s = "\<lparr>tasks = empty_world, pausing = {}, disk = Map.empty, tick = 0\<rparr>"
  have addr: "Addr ?t = []" by (simp add: zero_task_def)
  obtain created s1 where start: "servers_Start ?e ?t [''true''] ?s = (created, s1)" by (rule prod.exhaust)
  then have s: "ID created = ''p''" "tick s1 = 1" "pausing s1 = {}"
    by (auto simp: servers_Start_eq [OF addr] process_started_simps stopping_env_def cmp_or_def)
  have "lookup (tasks (turn ?e s1)) (ID created) = None" "ID created \<notin> pausing (turn ?e (turn ?e s1))"
    using s by (simp_all add: stopping_env_def lookup_unlist)
  from servers_Run_stopped_before_the_wait [OF start this] show ?thesis by blast
qed

text \<open>Stopping an id answers 404 and changes nothing when the id names nothing, and otherwise
  answers only once the task it named has finished, in whatever way the rest of the program runs.\<close>

theorem servers_Stop_waits_for_its_task:
  assumes env: "sound_env e" and con: "consistent (tasks s)"
  shows "case lookup (tasks (turn e s)) (Str params ''id'') of
      None \<Rightarrow> servers_Stop e params s =
        ((404, JNull, ''unknown id '' @ Str params ''id''), turn e s)
    | Some p \<Rightarrow> fst (servers_Stop e params s) =
        (200, obj [(''id'', JStr (Str params ''id'')), (''state'', JStr ''stopped'')], []) \<and>
        is_finished (tasks (snd (servers_Stop e params s))) p"
proof (cases "lookup (tasks (turn e s)) (Str params ''id'')")
  case None
  then show ?thesis
    by (simp add: servers_Stop_def tasks_Stop_def stop_begin_def unlist_absent Let_def turn_def)
next
  case (Some p)
  let ?key = "Str params ''id''"
  have con1: "consistent (tasks (turn e s))" using turn_consistent [OF env con] by simp
  obtain c where c: "cells (tasks (turn e s)) p = Some c"
    using consistent_lookup [OF con1 Some] by blast
  let ?s2 = "(turn e s)\<lparr>tasks := unlist ?key (tasks (turn e s))\<rparr>"
  have con2: "consistent (tasks ?s2)" using unlist_consistent [OF con1] by simp
  have "cells (tasks ?s2) p = Some c" using c by simp
  from turn_cell [OF env con2 this] obtain c2 where c2: "cells (tasks (turn e ?s2)) p = Some c2" by auto
  let ?s3 = "(turn e ?s2)\<lparr>tasks := cancel p (tasks (turn e ?s2))\<rparr>"
  have con3: "consistent (tasks ?s3)"
    using cancel_consistent turn_consistent [OF env con2] by simp
  obtain c3 where c3: "cells (tasks ?s3) p = Some c3" using c2 by (simp add: cancel_def)
  have "is_finished (tasks (until_done e p ?s3)) p"
    using until_done_ends(2) [OF env con3 c3] by (auto simp: is_finished_def)
  with Some show ?thesis
    by (simp add: servers_Stop_def tasks_Stop_def stop_begin_def Let_def del: turn_simps)
qed

theorem servers_Stop_waits_for_its_task_witness:
  "servers_Stop (quiet_env None) [''id'' \<mapsto> JStr ''x'']
       \<lparr>tasks = empty_world, pausing = {}, disk = Map.empty, tick = 0\<rparr> =
     ((404, JNull, ''unknown id x''), \<lparr>tasks = empty_world, pausing = {}, disk = Map.empty, tick = 1\<rparr>)"
proof -
  let ?e = "quiet_env None" and ?ps = "[''id'' \<mapsto> JStr ''x'']"
  let ?s = "\<lparr>tasks = empty_world, pausing = {}, disk = Map.empty, tick = 0\<rparr>"
  have con: "consistent (tasks ?s)" by (simp add: empty_consistent)
  have none: "lookup (tasks (turn ?e ?s)) (Str ?ps ''id'') = None"
    by (simp add: lookup_def empty_world_def)
  from servers_Stop_waits_for_its_task [OF quiet_sound con, of None ?ps] none
  have "servers_Stop ?e ?ps ?s = ((404, JNull, ''unknown id '' @ Str ?ps ''id''), turn ?e ?s)"
    by (simp only: none option.case)
  then show ?thesis by (simp add: turn_def)
qed

end
