(* ===== verification/Install.thy ===== *)
theory Install
  imports System
begin

text \<open>
  \<^verbatim>\<open>internal/install/install.go\<close>: what Linkspan fetches and builds under the home directory.
\<close>

definition Asset :: "env \<Rightarrow> (string \<times> string) list \<Rightarrow> string \<Rightarrow> string + string" where
  "Asset e assets name = (case map_of assets (platform e) of
       None \<Rightarrow> Inl (''no '' @ name @ '' binary for '' @ platform e)
     | Some asset \<Rightarrow> Inr asset)"

definition install_Dir :: "env \<Rightarrow> string" where
  "install_Dir e = path_join [home e, ''.cybershuttle'']"

definition Bin :: "env \<Rightarrow> string \<Rightarrow> string" where
  "Bin e name = path_join [install_Dir e, ''bin'', name]"

definition Which :: "env \<Rightarrow> string \<Rightarrow> string" where
  "Which e name = look_path e name"

definition Fetch :: "env \<Rightarrow> string \<Rightarrow> string \<Rightarrow> sys \<Rightarrow> string option \<times> sys" where
  "Fetch e dst src s =
     (let (present, s) = os_Exists e dst s in
      if present then (None, s) else
      let (err, s) = os_MkdirAll e (parent_dir dst) s in
      if err \<noteq> None then (err, s) else
      let s = turn e s in
      case http_get e (tick s) src of
        Inl err \<Rightarrow> (Some err, s)
      | Inr (status_code, status, body) \<Rightarrow>
          if status_code \<noteq> 200 then (Some (''GET '' @ src @ '': unexpected status '' @ status), s) else
          case body of
            Inl err \<Rightarrow> (Some (''GET '' @ src @ '': '' @ err), s)
          | Inr data \<Rightarrow>
              let part = dst @ ''.part''; (err, s) = os_WriteFile e part (Bytes data) s in
              if err \<noteq> None then (err, os_Remove e part s) else
              let (err, s) = os_Rename e part dst s
              in (err, os_Remove e part s))"

section \<open>Lemmas\<close>

lemma join_with_nonempty: "x \<noteq> [] \<Longrightarrow> join_with sep (x # xs) \<noteq> []"
  by (cases xs) auto

lemma clean_step_nonempty: "[] \<notin> set st \<Longrightarrow> [] \<notin> set (clean_step r st el)"
  by (cases st) auto

lemma clean_parts_nonempty: "[] \<notin> set st \<Longrightarrow> [] \<notin> set (foldl (clean_step r) st els)"
proof (induction els arbitrary: st)
  case (Cons el els)
  then show ?case using clean_step_nonempty [of st r el] by (simp del: clean_step.simps)
qed simp

lemma clean_path_nonempty: "clean_path path \<noteq> []"
proof -
  let ?st = "foldl (clean_step False) [] (split_at_char (CHR ''/'') path)"
  have "join_with ''/'' (rev ?st) \<noteq> []" if "?st \<noteq> []"
  proof (cases "rev ?st")
    case (Cons x xs)
    then have "x \<in> set ?st" by (metis list.set_intros(1) set_rev)
    then have "x \<noteq> []" using clean_parts_nonempty [of "[]" False "split_at_char (CHR ''/'') path"] by auto
    with Cons show ?thesis by (simp add: join_with_nonempty)
  qed (use that in simp)
  then show ?thesis by (simp add: clean_path_def Let_def)
qed

lemma path_join_nonempty: "p \<in> set parts \<Longrightarrow> p \<noteq> [] \<Longrightarrow> path_join parts \<noteq> []"
  by (auto simp: path_join_def Let_def clean_path_nonempty filter_empty_conv)

lemma parent_dir_shorter: "path \<noteq> [] \<Longrightarrow> length (parent_dir path) < length path"
proof -
  let ?d = "dropWhile (\<lambda>c. c \<noteq> CHR ''/'') (rev path)"
  assume "path \<noteq> []"
  then have "0 < length path" by simp
  moreover have "length ?d \<le> length path" using length_dropWhile_le [of _ "rev path"] by simp
  moreover have "length (parent_dir path) = length ?d - 1" by (simp add: parent_dir_def)
  ultimately show ?thesis by arith
qed

lemma ancestors_length: "p \<in> set (ancestors n path) \<Longrightarrow> length p \<le> length path"
proof (induction n path rule: ancestors.induct)
  case (2 n path)
  then show ?case using parent_dir_shorter [of path] by (fastforce split: if_splits)
qed simp

lemma MkdirAll_parent [simp]: "path \<noteq> [] \<Longrightarrow> MkdirAll (parent_dir path) d path = d path"
  using ancestors_length [of path] parent_dir_shorter [of path] by (fastforce simp: MkdirAll_def)

lemma Rename_new [simp]: "Rename old new d new = d old"
  by (simp add: Rename_def inside_def)

lemma Fetch_leaves_it_in_place:
  assumes others: "\<And>s. disk (others e s) = disk s" and dst: "dst \<noteq> []"
    and fetch: "Fetch e dst src s = (None, s')"
  shows "disk s' dst \<noteq> None"
  using fetch [symmetric] dst
  by (auto simp: Fetch_def os_Exists_def os_MkdirAll_def os_WriteFile_def os_Rename_def os_Remove_def Let_def others
      split: option.splits sum.splits prod.splits if_splits)

section \<open>Properties\<close>



text \<open>A rival that renames in between.\<close>

definition rival_env :: "string \<Rightarrow> env" where
  "rival_env dst = (quiet_env None)\<lparr>others := (\<lambda>s. if tick s = 4
     then s\<lparr>disk := Rename (dst @ ''.part'') dst (disk s)\<rparr> else s)\<rparr>"

lemma rival_env_simps [simp]:
  "others (rival_env dst) s = (if tick s = 4 then s\<lparr>disk := Rename (dst @ ''.part'') dst (disk s)\<rparr> else s)"
  "fs_error (rival_env dst) n op path = None" "http_get (rival_env dst) n src = Inr (200, ''200 OK'', Inr ''binary'')"
  by (simp_all add: rival_env_def quiet_env_def)

text \<open>Two downloads of one file at a time can fail with nothing else amiss, since both write the
  same sibling file: when the rival's rename comes between this one's write and its rename, this
  one answers an error although the file is complete and in place.\<close>

theorem concurrent_Fetch_fails:
  assumes "dst \<noteq> []" and "disk s dst = None" and "tick s = 0"
  shows "\<exists>err s'. Fetch (rival_env dst) dst src s = (Some err, s') \<and>
    disk s' dst = Some (Regular (Bytes ''binary''))"
proof -
  have "\<not> inside dst (dst @ ''.part'')"
    by (auto simp: inside_def has_prefix_split)
  with assms show ?thesis
    by (auto simp: Fetch_def os_Exists_def os_MkdirAll_def os_WriteFile_def os_Rename_def os_Remove_def
      Let_def Rename_def inside_def)
qed

theorem concurrent_Fetch_fails_witness:
  "\<exists>err s'. Fetch (rival_env ''/h/bin/ttyd'') ''/h/bin/ttyd'' ''https://x''
     \<lparr>tasks = empty_world, pausing = {}, disk = Map.empty, tick = 0\<rparr> = (Some err, s')"
  using concurrent_Fetch_fails [of "''/h/bin/ttyd''"
      "\<lparr>tasks = empty_world, pausing = {}, disk = Map.empty, tick = 0\<rparr>" "''https://x''"]
  by (simp del: rival_env_simps) blast

end
