(* ===== verification/Sessions.thy ===== *)
theory Sessions
  imports Servers Install
begin

text \<open>
  The subsystems that serve sessions: \<^verbatim>\<open>subsystems/terminal\<close>, \<^verbatim>\<open>subsystems/jupyter\<close>,
  \<^verbatim>\<open>subsystems/vscode\<close>, and the placeholder \<^verbatim>\<open>subsystems/filesystem\<close>. A spawned server's
  preparation is a function of its own: what it answers is the command, or the error that ends the
  task; \<open>SpawnWork\<close> carries the command it answers when it succeeds.
\<close>

definition action_named :: "(string \<times> 's action) list \<Rightarrow> string \<Rightarrow> 's action" where
  "action_named actions name = the (map_of actions name)"

section \<open>\<^verbatim>\<open>filesystem\<close>\<close>

fun first_missing :: "string list \<Rightarrow> params \<Rightarrow> string option" where
  "first_missing [] given = None"
| "first_missing (p # ps) given = (if Str given p = [] then Some p else first_missing ps given)"

definition notImplemented :: "string \<Rightarrow> string list \<Rightarrow> 's action" where
  "notImplemented name ps = (\<lambda>given s.
     (case first_missing ps given of
        Some p \<Rightarrow> (400, JNull, p @ '' is required'')
      | None \<Rightarrow> (501, JNull, name @ '' is not implemented''), s))"

definition filesystem_Actions :: "(string \<times> 's action) list" where
  "filesystem_Actions =
     [(''mount'', notImplemented ''mount'' [''source'', ''target'']),
      (''unmount'', notImplemented ''unmount'' [''target'']),
      (''copy'', notImplemented ''copy'' [''source'', ''target'']),
      (''sync'', notImplemented ''sync'' [''source'', ''target''])]"

definition filesystem_Router :: "'s action Router" where
  "filesystem_Router = New ''/filesystem''
     [(''POST /mount'', action_named filesystem_Actions ''mount''),
      (''POST /unmount'', action_named filesystem_Actions ''unmount''),
      (''POST /copy'', action_named filesystem_Actions ''copy''),
      (''POST /sync'', action_named filesystem_Actions ''sync'')]"

section \<open>\<^verbatim>\<open>terminal\<close>\<close>

definition terminal_assets :: "(string \<times> string) list" where
  "terminal_assets = [(''linux/amd64'', ''ttyd.x86_64''), (''linux/arm64'', ''ttyd.aarch64'')]"

definition ttyd_url :: "string \<Rightarrow> string" where
  "ttyd_url asset = ''https://github.com/tsl0922/ttyd/releases/download/'' @ ''1.7.7'' @ ''/'' @ asset"

definition ttyd_command :: "env \<Rightarrow> string \<Rightarrow> int \<Rightarrow> command" where
  "ttyd_command e cwd port =
     \<lparr>argv = [Bin e ''ttyd'', ''-p'', itoa port, ''-i'', ''127.0.0.1'', ''-W'',
        cmp_or [] (getenv e ''SHELL'') ''sh'', ''-l''], Dir = cwd, Env = []\<rparr>"

definition terminal_spawn :: "env \<Rightarrow> string \<Rightarrow> string \<Rightarrow> int \<Rightarrow> sys \<Rightarrow> (string + command) \<times> sys" where
  "terminal_spawn e asset cwd port s =
     (case Fetch e (Bin e ''ttyd'') (ttyd_url asset) s of
        (Some err, s) \<Rightarrow> (Inl err, s)
      | (None, s) \<Rightarrow> (Inr (ttyd_command e cwd port), s))"

definition terminal_startServer :: "env \<Rightarrow> sys action" where
  "terminal_startServer e = (\<lambda>params s.
     case Asset e terminal_assets ''ttyd'' of
       Inl err \<Rightarrow> ((501, JNull, err), s)
     | Inr asset \<Rightarrow>
        (let cwd = Str params ''cwd''
         in Serve e (zero_task\<lparr>ID := Str params ''ref'', Kind := ''terminal'',
              Attrs := Some [(''cwd'', cwd)], Work := SpawnWork (ttyd_command e cwd)\<rparr>) s))"

definition terminal_Actions :: "env \<Rightarrow> (string \<times> sys action) list" where
  "terminal_Actions e =
     [(''sessions.select'', servers_Select e ''terminal''),
      (''sessions.start'', terminal_startServer e),
      (''sessions.stop'', servers_Stop e)]"

definition terminal_Router :: "env \<Rightarrow> sys action Router" where
  "terminal_Router e = New ''/terminal''
     [(''GET /sessions'', action_named (terminal_Actions e) ''sessions.select''),
      (''POST /sessions'', action_named (terminal_Actions e) ''sessions.start''),
      (''DELETE /sessions/{id}'', action_named (terminal_Actions e) ''sessions.stop'')]"

section \<open>\<^verbatim>\<open>jupyter\<close>\<close>

text \<open>\<^verbatim>\<open>base64.RawURLEncoding\<close>: six bits a character, no padding.\<close>

definition b64_alphabet :: string where
  "b64_alphabet = ''ABCDEFGHIJKLMNOPQRSTUVWXYZabcdefghijklmnopqrstuvwxyz0123456789-_''"

definition b64_char :: "nat \<Rightarrow> char" where
  "b64_char n = b64_alphabet ! n"

fun b64_digits :: "nat list \<Rightarrow> nat list" where
  "b64_digits (a # b # c # rest) =
     [a div 4, (a mod 4) * 16 + b div 16, (b mod 16) * 4 + c div 64, c mod 64] @ b64_digits rest"
| "b64_digits [a, b] = [a div 4, (a mod 4) * 16 + b div 16, (b mod 16) * 4]"
| "b64_digits [a] = [a div 4, (a mod 4) * 16]"
| "b64_digits [] = []"

definition RawURLEncoding :: "8 word list \<Rightarrow> string" where
  "RawURLEncoding bs = map b64_char (b64_digits (map unat bs))"

definition newToken :: "env \<Rightarrow> nat \<Rightarrow> string" where
  "newToken e n = RawURLEncoding (rand_bytes e n)"

definition envDir :: "env \<Rightarrow> string" where
  "envDir e = path_join [install_Dir e, ''jupyter-env'']"

definition setup_steps :: "env \<Rightarrow> (string \<times> string list) list" where
  "setup_steps e = (let uv = Bin e ''uv''; dir = envDir e in
     [(''install uv'', [''sh'', ''-c'', ''curl -LsSf https://astral.sh/uv/install.sh | sh'']),
      (''create environment'', [uv, ''venv'', ''--quiet'', ''--allow-existing'', ''--python'', ''3.12'', dir]),
      (''install packages'', [uv, ''pip'', ''install'', ''--quiet'', ''--python'',
         path_join [dir, ''bin'', ''python''], ''jupyter-server'', ''ipykernel'', ''jupyter-server-terminals''])])"

definition setup_env :: "env \<Rightarrow> string list" where
  "setup_env e = (let root = install_Dir e in
     [''UV_UNMANAGED_INSTALL='' @ path_join [root, ''bin''],
      ''UV_CACHE_DIR='' @ path_join [root, ''cache'', ''uv''],
      ''UV_PYTHON_INSTALL_DIR='' @ path_join [root, ''python'']])"

fun run_steps :: "env \<Rightarrow> (string \<times> string list) list \<Rightarrow> sys \<Rightarrow> answer \<times> sys" where
  "run_steps e [] s = ((200, JNull, []), s)"
| "run_steps e ((name, args) # steps) s =
     (let (err, s) = tasks_Exec e \<lparr>argv = args, Dir = [], Env = setup_env e\<rparr> s in
      case err of
        Some err \<Rightarrow> ((500, JNull, name @ '': '' @ err), s)
      | None \<Rightarrow> run_steps e steps s)"

definition jupyter_setup :: "env \<Rightarrow> sys action" where
  "jupyter_setup e = (\<lambda>params s.
     let steps = setup_steps e; (present, s) = os_Exists e (Bin e ''uv'') s;
         steps = (if present then tl steps else steps)
     in run_steps e steps s)"

definition jupyter_command :: "env \<Rightarrow> string \<Rightarrow> string \<Rightarrow> int \<Rightarrow> command" where
  "jupyter_command e root_dir token port =
     \<lparr>argv = [path_join [envDir e, ''bin'', ''python''], ''-m'', ''jupyter_server'', ''--no-browser'',
        ''--ip=127.0.0.1'', ''--port='' @ itoa port, ''--port-retries=0'', ''--ServerApp.allow_origin=*'',
        ''--ContentsManager.allow_hidden=True''],
      Dir = root_dir, Env = [''JUPYTER_TOKEN='' @ token]\<rparr>"

definition jupyter_spawn :: "env \<Rightarrow> string \<Rightarrow> string \<Rightarrow> int \<Rightarrow> sys \<Rightarrow> (string + command) \<times> sys" where
  "jupyter_spawn e root_dir token port s =
     (let ((status, _, msg), s) = jupyter_setup e Map.empty s
      in if status \<noteq> 200 then (Inl msg, s) else (Inr (jupyter_command e root_dir token port), s))"

definition jupyter_startServer :: "env \<Rightarrow> sys action" where
  "jupyter_startServer e = (\<lambda>params s.
     let root_dir = Str params ''root_dir'';
         token = cmp_or [] (Str params ''token'') (cmp_or [] (getenv e ''JUPYTER_TOKEN'') (newToken e (tick s)))
     in Serve e (zero_task\<lparr>ID := Str params ''ref'', Kind := ''jupyter'', Addr := Str params ''addr'',
          Attrs := Some [(''root_dir'', root_dir), (''token'', token)],
          Work := SpawnWork (jupyter_command e root_dir token)\<rparr>) s)"

definition jupyter_Actions :: "env \<Rightarrow> (string \<times> sys action) list" where
  "jupyter_Actions e =
     [(''setup'', jupyter_setup e),
      (''sessions.select'', servers_Select e ''jupyter''),
      (''sessions.start'', jupyter_startServer e),
      (''sessions.stop'', servers_Stop e)]"

definition jupyter_Router :: "env \<Rightarrow> sys action Router" where
  "jupyter_Router e = New ''/jupyter''
     [(''POST /setup'', action_named (jupyter_Actions e) ''setup''),
      (''GET /sessions'', action_named (jupyter_Actions e) ''sessions.select''),
      (''POST /sessions'', action_named (jupyter_Actions e) ''sessions.start''),
      (''DELETE /sessions/{id}'', action_named (jupyter_Actions e) ''sessions.stop'')]"

section \<open>\<^verbatim>\<open>vscode\<close>\<close>

text \<open>
  The parser of keys is the SSH library's: \<open>parse_key\<close> answers the key and its options.
  \<^verbatim>\<open>startMu\<close> keeps other starts out of the two sections.
\<close>

definition vscode_answer :: "Task \<Rightarrow> json" where
  "vscode_answer t = obj [(''id'', JStr (ID t)), (''bind_port'', JNum (Port t))]"

definition vscode_startServer ::
  "(string \<Rightarrow> ('k \<times> string list) option) \<Rightarrow> env \<Rightarrow> sys action" where
  "vscode_startServer parse_key e = (\<lambda>params s.
     case parse_key (Str params ''authorized_key'') of
       None \<Rightarrow> ((400, JNull, ''authorized_key is missing or invalid''), s)
     | Some (key, options) \<Rightarrow>
         if options \<noteq> [] then ((400, JNull, ''authorized_key options are not supported''), s)
         else
           let ref = Str params ''ref''; (listed, s) = tasks_Select e ''sshd'' s in
           case List.find (\<lambda>t. ID t = ref \<and> State t = StateRunning) listed of
             Some running \<Rightarrow> ((200, vscode_answer running, []), s)
           | None \<Rightarrow>
              (case tasks_Start e (zero_task\<lparr>ID := ref, Kind := ''sshd'', Work := ServerWork\<rparr>) s of
                 (Inl err, s) \<Rightarrow> ((500, JNull, err), s)
               | (Inr created, s) \<Rightarrow> ((201, vscode_answer created, []), s)))"

definition vscode_Actions ::
  "(string \<Rightarrow> ('k \<times> string list) option) \<Rightarrow> env \<Rightarrow> (string \<times> sys action) list" where
  "vscode_Actions parse_key e =
     [(''sessions.select'', servers_Select e ''sshd''),
      (''sessions.start'', vscode_startServer parse_key e)]"

definition vscode_Router ::
  "(string \<Rightarrow> ('k \<times> string list) option) \<Rightarrow> env \<Rightarrow> sys action Router" where
  "vscode_Router parse_key e = New ''/vscode''
     [(''GET /sessions'', action_named (vscode_Actions parse_key e) ''sessions.select''),
      (''POST /sessions'', action_named (vscode_Actions parse_key e) ''sessions.start'')]"

section \<open>Tokens\<close>

fun b64_bytes :: "nat list \<Rightarrow> nat list" where
  "b64_bytes (p # q # r # t # rest) =
     [p * 4 + q div 16, (q mod 16) * 16 + r div 4, (r mod 4) * 64 + t] @ b64_bytes rest"
| "b64_bytes [p, q, r] = [p * 4 + q div 16, (q mod 16) * 16 + r div 4]"
| "b64_bytes [p, q] = [p * 4 + q div 16]"
| "b64_bytes _ = []"

lemma sextets:
  fixes a b c :: nat
  assumes "a < 256" and "b < 256" and "c < 256"
  shows "b div 16 < 16" and "c div 64 < 4"
    and "a div 4 < 64" and "(a mod 4) * 16 + b div 16 < 64" and "(b mod 16) * 4 + c div 64 < 64"
proof -
  show s: "b div 16 < 16" "c div 64 < 4" "a div 4 < 64"
    using assms by (simp_all add: less_mult_imp_div_less)
  have "a mod 4 < 4" "b mod 16 < 16" by simp_all
  with s(1,2) show "(a mod 4) * 16 + b div 16 < 64" "(b mod 16) * 4 + c div 64 < 64" by linarith+
qed

lemma b64_bytes_digits: "list_all (\<lambda>x. x < 256) xs \<Longrightarrow> b64_bytes (b64_digits xs) = xs"
proof (induction xs rule: b64_digits.induct)
  case (1 a b c rest)
  then show ?case using sextets(1,2) [of a b c] by simp
next
  case (2 a b)
  then show ?case using sextets(1) [of a b 0] by simp
qed simp_all

lemma b64_digits_small: "list_all (\<lambda>x. x < 256) xs \<Longrightarrow> list_all (\<lambda>x. x < 64) (b64_digits xs)"
proof (induction xs rule: b64_digits.induct)
  case (1 a b c rest)
  then show ?case using sextets(3-5) [of a b c] by simp
next
  case (2 a b)
  then show ?case using sextets(3-5) [of a b 0] by simp
next
  case (3 a)
  then show ?case using sextets(3,4) [of a 0 0] by simp
qed simp

lemma byte_list: "list_all (\<lambda>x. x < 256) (map unat (bs :: 8 word list))"
proof -
  have "unat x < 256" for x :: "8 word" using unsigned_less [of x] by simp
  then show ?thesis by (simp add: list_all_iff)
qed

definition b64_value :: "char \<Rightarrow> nat" where
  "b64_value c = length (takeWhile (\<lambda>d. d \<noteq> c) b64_alphabet)"

lemma b64_alphabet_length: "length b64_alphabet = 64"
  by (simp add: b64_alphabet_def)

lemma b64_value_char: "n < 64 \<Longrightarrow> b64_value (b64_char n) = n"
proof -
  have "\<forall>n\<in>set [0..<64]. b64_value (b64_char n) = n" by code_simp
  then show "n < 64 \<Longrightarrow> ?thesis" by simp
qed

definition b64_decode :: "string \<Rightarrow> 8 word list option" where
  "b64_decode s = Some (map of_nat (b64_bytes (map b64_value s)))"

interpretation base64: codec RawURLEncoding b64_decode "\<lambda>_. True"
proof
  fix bs :: "8 word list"
  note byte = byte_list [of bs]
  have "map b64_value (RawURLEncoding bs) = map (\<lambda>x. x) (b64_digits (map unat bs))"
    unfolding RawURLEncoding_def map_map
    by (rule map_cong [OF refl]) (use b64_digits_small [OF byte] in \<open>simp add: list_all_iff b64_value_char\<close>)
  then show "b64_decode (RawURLEncoding bs) = Some bs"
    by (simp add: b64_decode_def b64_bytes_digits [OF byte] comp_def)
qed

lemma b64_digits_length: "length (b64_digits xs) = (length xs * 4 + 2) div 3"
  by (induction xs rule: b64_digits.induct) auto

section \<open>Starting a server\<close>

text \<open>What a successful start leaves, whatever the kernel answered.\<close>

lemma tasks_Start_listed:
  assumes "tasks_Start e t s = (Inr created, s')"
  shows "\<exists>p. lookup (tasks s') (ID created) = Some p \<and> cells (tasks s') p = Some (new_cell created)"
    and "Work created = Work t" and "Kind created = Kind t" and "Attrs created = Attrs t"
    and "State created = cmp_or StateNone (if is_child (Work t) then StateStarting else State t) StateRunning"
proof -
  obtain k w w' where st: "Start k t w = (Inr created, w')" and s': "tasks s' = w'"
    using assms by (auto simp: tasks_Start_def Let_def split: prod.splits)
  obtain w1 where "w' = register created w1" and "Work created = Work t" "Kind created = Kind t"
    "Attrs created = Attrs t"
    "State created = cmp_or StateNone (if is_child (Work t) then StateStarting else State t) StateRunning"
    using st by (rule Start_registers)
  with s' show "\<exists>p. lookup (tasks s') (ID created) = Some p \<and> cells (tasks s') p = Some (new_cell created)"
    "Work created = Work t" "Kind created = Kind t" "Attrs created = Attrs t"
    "State created = cmp_or StateNone (if is_child (Work t) then StateStarting else State t) StateRunning"
    by (auto simp: lookup_register cells_register)
qed

lemma listed_in_Select:
  assumes "consistent w"
  shows "t \<in> set (Select kind w) \<longleftrightarrow>
    (\<exists>p c. lookup w (ID t) = Some p \<and> cells w p = Some c \<and> t = task c \<and> Kind t = kind)"
proof -
  obtain k where "system_inv (w, k)" using assms by (auto simp: consistent_def)
  from held_listed [OF this] show ?thesis by (auto simp: Select_def)
qed

lemma Serve_created:
  assumes "Serve e t s = ((201, body, msg), s')"
  obtains created where "tasks_Start e t s = (Inr created, s')" and "body = MarshalJSON created"
  using assms by (auto simp: Serve_def split: prod.splits sum.splits)

lemma find_running:
  assumes con: "consistent w" and p: "lookup w key = Some p" "cells w p = Some c" and c: "State (task c) = StateRunning"
  shows "List.find (\<lambda>t. ID t = key \<and> State t = StateRunning) (Select (Kind (task c)) w) = Some (task c)"
    (is "?found = _")
proof -
  have "ID (task c) = key" using consistent_lookup [OF con p(1)] p(2) by auto
  then have "task c \<in> set (Select (Kind (task c)) w) \<and> ID (task c) = key \<and> State (task c) = StateRunning"
    using listed_in_Select [OF con] p c by auto
  then have "?found \<noteq> None" by (auto simp: find_None_iff)
  then obtain t where t: "?found = Some t" by auto
  then have "t \<in> set (Select (Kind (task c)) w) \<and> ID t = key" by (auto simp: find_Some_iff)
  then have "t = task c" using listed_in_Select [OF con] p by auto
  with t show ?thesis by simp
qed

lemma vscode_reuses:
  assumes env: "sound_env e" and con: "consistent (tasks s)"
    and plain: "parse_key (Str params ''authorized_key'') = Some (key, [])"
    and p: "lookup (tasks (turn e s)) (Str params ''ref'') = Some p" "cells (tasks (turn e s)) p = Some c"
    and c: "Kind (task c) = ''sshd''" "State (task c) = StateRunning"
  shows "vscode_startServer parse_key e params s = ((200, vscode_answer (task c), []), turn e s)"
proof -
  have "consistent (tasks (turn e s))" using turn_consistent [OF env con] by simp
  from find_running [OF this p c(2)] show ?thesis
    by (simp add: vscode_startServer_def plain tasks_Select_def c(1) Let_def del: turn_simps)
qed

lemma vscode_creates:
  assumes "parse_key (Str params ''authorized_key'') = Some (key, [])"
    and "vscode_startServer parse_key e params s = ((201, body, msg), s')"
  shows "\<exists>created p. body = vscode_answer created \<and> lookup (tasks s') (ID created) = Some p \<and>
    cells (tasks s') p = Some (new_cell created) \<and> State created = StateRunning \<and> Kind created = ''sshd''"
proof -
  from assms obtain s1 created where st: "tasks_Start e (zero_task\<lparr>ID := Str params ''ref'', Kind := ''sshd'',
      Work := ServerWork\<rparr>) s1 = (Inr created, s')" and body: "body = vscode_answer created"
    by (auto simp: vscode_startServer_def Let_def split: option.splits prod.splits sum.splits)
  from tasks_Start_listed [OF st] body show ?thesis by (auto simp: zero_task_def)
qed

section \<open>Properties\<close>




text \<open>C14: a Jupyter session is answered with what its server runs with. On 201 the listed task's token
  is the request's, else the inherited one, else a minted one; the command it spawns for its own
  port gets that token and that port, and runs in the root directory the answer names.\<close>

theorem jupyter_answers_what_it_runs:
  assumes "jupyter_startServer e params s = ((201, body, msg), s')"
  shows "\<exists>created p token f. body = MarshalJSON created \<and>
    lookup (tasks s') (ID created) = Some p \<and> cells (tasks s') p = Some (new_cell created) \<and>
    Kind created = ''jupyter'' \<and> State created = StateStarting \<and>
    Attrs created = Some [(''root_dir'', Str params ''root_dir''), (''token'', token)] \<and>
    token = (if Str params ''token'' \<noteq> [] then Str params ''token''
      else if getenv e ''JUPYTER_TOKEN'' \<noteq> [] then getenv e ''JUPYTER_TOKEN''
      else newToken e (tick s)) \<and>
    Work created = SpawnWork f \<and> Dir (f (Port created)) = Str params ''root_dir'' \<and>
    ''JUPYTER_TOKEN='' @ token \<in> set (Env (f (Port created))) \<and>
    ''--port='' @ itoa (Port created) \<in> set (argv (f (Port created)))"
proof -
  let ?token = "cmp_or [] (Str params ''token'') (cmp_or [] (getenv e ''JUPYTER_TOKEN'') (newToken e (tick s)))"
  let ?root = "Str params ''root_dir''"
  from assms obtain created where st: "tasks_Start e (zero_task\<lparr>ID := Str params ''ref'', Kind := ''jupyter'',
      Addr := Str params ''addr'', Attrs := Some [(''root_dir'', ?root), (''token'', ?token)],
      Work := SpawnWork (jupyter_command e ?root ?token)\<rparr>) s = (Inr created, s')"
    and body: "body = MarshalJSON created"
    unfolding jupyter_startServer_def Let_def by (rule Serve_created)
  note listed = tasks_Start_listed [OF st]
  from listed(1) obtain p where "lookup (tasks s') (ID created) = Some p"
    "cells (tasks s') p = Some (new_cell created)" by blast
  moreover have "?token = (if Str params ''token'' \<noteq> [] then Str params ''token''
      else if getenv e ''JUPYTER_TOKEN'' \<noteq> [] then getenv e ''JUPYTER_TOKEN''
      else newToken e (tick s))" by (simp add: cmp_or_def)
  ultimately show ?thesis
    using body listed(2-5)
    by (intro exI [of _ created] exI [of _ p] exI [of _ ?token]
        exI [of _ "jupyter_command e ?root ?token"] conjI)
      (simp_all add: jupyter_command_def zero_task_def)
qed

theorem jupyter_answers_what_it_runs_witness:
  "\<exists>body s' (created :: Task) p. jupyter_startServer (quiet_env None) [''token'' \<mapsto> JStr ''t0'']
       \<lparr>tasks = empty_world, pausing = {}, disk = Map.empty, tick = 0\<rparr> = ((201, body, []), s') \<and>
     lookup (tasks s') (ID created) = Some p \<and> Kind created = ''jupyter''"
proof -
  let ?e = "quiet_env None" and ?ps = "[''token'' \<mapsto> JStr ''t0'']"
  let ?s = "\<lparr>tasks = empty_world, pausing = {}, disk = Map.empty, tick = 0\<rparr>"
  have "split_host_port ''127.0.0.1:0'' \<noteq> None" by (simp add: split_host_port_def last_colon_def)
  then have "\<exists>body s'. jupyter_startServer ?e ?ps ?s = ((201, body, []), s')"
    by (simp add: jupyter_startServer_def Serve_def tasks_Start_def Start_def prepare_def listen_def
      zero_task_def Let_def Str_def quiet_env_def)
  then obtain body s' where j: "jupyter_startServer ?e ?ps ?s = ((201, body, []), s')" by blast
  from jupyter_answers_what_it_runs [OF j] show ?thesis
  proof (elim exE conjE)
    fix created :: Task and p
    assume "lookup (tasks s') (ID created) = Some p" and "Kind created = ''jupyter''"
    with j show ?thesis
      by (intro exI [of _ body] exI [of _ s'] exI [of _ created] exI [of _ p] conjI)
  qed
qed

text \<open>C16: a terminal runs only a binary that is in place. When nothing else touches the files, the
  preparation of a spawned terminal answers a command only with \<^verbatim>\<open>ttyd\<close> at the path it runs, and it
  is the command the listed task carries for that port, in the requested directory.\<close>

theorem terminal_runs_a_binary_in_place:
  assumes others: "\<And>s. disk (others e s) = disk s"
    and start: "terminal_startServer e params s = ((201, body, msg), s1)"
    and spawn: "terminal_spawn e asset (Str params ''cwd'') port s2 = (Inr cmd, s3)"
  shows "disk s3 (Bin e ''ttyd'') \<noteq> None \<and> hd (argv cmd) = Bin e ''ttyd'' \<and>
    (\<exists>created p f. body = MarshalJSON created \<and> lookup (tasks s1) (ID created) = Some p \<and>
       cells (tasks s1) p = Some (new_cell created) \<and> Work created = SpawnWork f \<and> cmd = f port \<and>
       Attrs created = Some [(''cwd'', Dir cmd)])"
proof -
  obtain present where asset: "Asset e terminal_assets ''ttyd'' = Inr present"
    using start by (auto simp: terminal_startServer_def split: sum.splits)
  obtain created where st: "tasks_Start e (zero_task\<lparr>ID := Str params ''ref'', Kind := ''terminal'',
      Attrs := Some [(''cwd'', Str params ''cwd'')], Work := SpawnWork (ttyd_command e (Str params ''cwd''))\<rparr>) s =
      (Inr created, s1)" and body: "body = MarshalJSON created"
    using start asset unfolding terminal_startServer_def Let_def by (auto elim: Serve_created)
  note listed = tasks_Start_listed [OF st]
  have bin: "Bin e ''ttyd'' \<noteq> []"
    unfolding Bin_def by (rule path_join_nonempty [of "''bin''"]) simp_all
  obtain s4 where f: "Fetch e (Bin e ''ttyd'') (ttyd_url asset) s2 = (None, s4)"
    and cmd: "cmd = ttyd_command e (Str params ''cwd'') port" "s3 = s4"
    using spawn by (auto simp: terminal_spawn_def split: prod.splits option.splits)
  have "disk s4 (Bin e ''ttyd'') \<noteq> None"
    using Fetch_leaves_it_in_place [OF others bin f] .
  moreover have "hd (argv cmd) = Bin e ''ttyd''" "Dir cmd = Str params ''cwd''"
    by (simp_all add: cmd ttyd_command_def)
  moreover obtain p where "lookup (tasks s1) (ID created) = Some p"
    "cells (tasks s1) p = Some (new_cell created)" using listed(1) by blast
  ultimately show ?thesis
    using body cmd listed(2,4)
    by (intro conjI exI [of _ created] exI [of _ p] exI [of _ "ttyd_command e (Str params ''cwd'')"])
       (simp_all add: zero_task_def)
qed

theorem terminal_runs_a_binary_in_place_witness:
  "\<exists>s3 cmd. terminal_spawn (quiet_env None) ''ttyd.x86_64'' ''/work'' 8080
       \<lparr>tasks = empty_world, pausing = {}, disk = Map.empty, tick = 0\<rparr> = (Inr cmd, s3) \<and>
     disk s3 (Bin (quiet_env None) ''ttyd'') \<noteq> None"
proof -
  let ?e = "quiet_env None" and ?ps = "[''cwd'' \<mapsto> JStr ''/work'']"
  let ?s = "\<lparr>tasks = empty_world, pausing = {}, disk = Map.empty, tick = 0\<rparr>"
  have "split_host_port ''127.0.0.1:0'' \<noteq> None" by (simp add: split_host_port_def last_colon_def)
  then have "\<exists>body s'. terminal_startServer ?e ?ps ?s = ((201, body, []), s')"
    by (simp add: terminal_startServer_def Asset_def terminal_assets_def Serve_def tasks_Start_def Start_def
      prepare_def listen_def zero_task_def Let_def Str_def quiet_env_def)
  then obtain body s1 where start: "terminal_startServer ?e ?ps ?s = ((201, body, []), s1)" by blast
  have "\<exists>cmd s3. terminal_spawn ?e ''ttyd.x86_64'' (Str ?ps ''cwd'') 8080 ?s = (Inr cmd, s3)"
    by (simp add: terminal_spawn_def Fetch_def os_Exists_def os_MkdirAll_def os_WriteFile_def os_Rename_def
      Let_def quiet_env_def split: prod.splits)
  then obtain cmd s3 where spawn: "terminal_spawn ?e ''ttyd.x86_64'' (Str ?ps ''cwd'') 8080 ?s = (Inr cmd, s3)"
    by blast
  have "disk (others ?e s) = disk s" for s by simp
  from terminal_runs_a_binary_in_place [OF this start spawn] spawn show ?thesis
    by (intro exI [of _ s3] exI [of _ cmd] conjI) simp_all
qed

text \<open>C17: naming a key keeps one SSH server. A start whose ref a listed running server has answers 200
  with that server and registers nothing; any other start with a plain key answers 201 with a new
  running server listed under the ref, when it has one; a key that does not parse or that carries
  options is refused before anything happens.\<close>

theorem vscode_keeps_one_server_per_ref:
  fixes parse_key :: "string \<Rightarrow> ('k \<times> string list) option"
  assumes env: "sound_env e" and con: "consistent (tasks s)"
    and run: "vscode_startServer parse_key e params s = ((status, body, msg), s')"
  shows "(case parse_key (Str params ''authorized_key'') of
      None \<Rightarrow> status = 400 \<and> s' = s
    | Some (key, options) \<Rightarrow> if options \<noteq> [] then status = 400 \<and> s' = s else
       (\<forall>p c. lookup (tasks (turn e s)) (Str params ''ref'') = Some p \<and> cells (tasks (turn e s)) p = Some c \<and>
          Kind (task c) = ''sshd'' \<and> State (task c) = StateRunning \<longrightarrow>
          status = 200 \<and> body = vscode_answer (task c) \<and> s' = turn e s) \<and>
       (status = 201 \<longrightarrow> (\<exists>created p. body = vscode_answer created \<and>
          lookup (tasks s') (ID created) = Some p \<and> cells (tasks s') p = Some (new_cell created) \<and>
          State created = StateRunning \<and> Kind created = ''sshd'')))"
proof (cases "parse_key (Str params ''authorized_key'')")
  case None
  with run show ?thesis by (simp add: vscode_startServer_def)
next
  case (Some ko)
  obtain key options where ko: "ko = (key, options)" by (cases ko)
  show ?thesis
  proof (cases "options = []")
    case False
    with run Some ko show ?thesis by (simp add: vscode_startServer_def)
  next
    case True
    with Some ko have plain: "parse_key (Str params ''authorized_key'') = Some (key, [])" by simp
    show ?thesis
      using vscode_reuses [where parse_key = parse_key, OF env con plain]
        vscode_creates [where parse_key = parse_key, OF plain] run
      by (simp add: plain del: turn_simps) blast
  qed
qed

definition sshd_sys :: sys where
  "sshd_sys = \<lparr>tasks = snd (Start (kern (quiet_env None) 0)
       (zero_task\<lparr>ID := ''ssh-1'', Kind := ''sshd'', Work := ServerWork\<rparr>) empty_world),
     pausing = {}, disk = Map.empty, tick = 0\<rparr>"

theorem vscode_keeps_one_server_per_ref_witness:
  "\<exists>t. fst (vscode_startServer (\<lambda>k. Some ((), [])) (quiet_env None) [''ref'' \<mapsto> JStr ''ssh-1''] sshd_sys) =
     (200, vscode_answer t, []) \<and> ID t = ''ssh-1''"
proof -
  let ?parse = "\<lambda>k :: string. Some ((), [] :: string list)" and ?e = "quiet_env None" and ?ps = "[''ref'' \<mapsto> JStr ''ssh-1'']"
  let ?t = "zero_task\<lparr>ID := ''ssh-1'', Kind := ''sshd'', Work := ServerWork\<rparr>"
  let ?kn = "kern ?e 0"
  obtain r w where start: "Start ?kn ?t empty_world = (r, w)" by (rule prod.exhaust)
  have con: "consistent w"
    by (rule Start_consistent [OF empty_consistent start]) (simp_all add: zero_task_def)
  have w: "tasks sshd_sys = w" by (simp add: sshd_sys_def start)
  have listen: "listen ?kn ''127.0.0.1:0'' empty_world = (Inr (loopback 8080), empty_world)"
  proof -
    have "split_host_port ''127.0.0.1:0'' \<noteq> None" by code_simp
    then show ?thesis by (simp add: listen_def quiet_env_def)
  qed
  obtain t where "w = register t empty_world" and t: "ID t = ''ssh-1''" "Kind t = ''sshd''" "State t = StateRunning"
    using start listen by (auto simp: Start_def prepare_def zero_task_def bound_to_def named_def Let_def)
  then have p: "lookup (tasks (turn ?e sshd_sys)) ''ssh-1'' = Some (nextp empty_world)"
      "cells (tasks (turn ?e sshd_sys)) (nextp empty_world) = Some (new_cell t)"
    using w by (simp_all add: lookup_register cells_register)
  obtain status body msg s' where run: "vscode_startServer ?parse ?e ?ps sshd_sys = ((status, body, msg), s')"
    by (metis prod.exhaust)
  have "consistent (tasks sshd_sys)" using con w by simp
  from vscode_keeps_one_server_per_ref [OF quiet_sound this run] p t
  have "status = 200 \<and> body = vscode_answer t" by (simp add: new_cell_def del: turn_simps)
  moreover have "msg = []"
    using run calculation
    by (auto simp: vscode_startServer_def tasks_Select_def Let_def split: option.splits sum.splits prod.splits)
  ultimately show ?thesis using run t by auto
qed

end
