(* ===== verification/Checkpoint.thy ===== *)
theory Checkpoint
  imports Servers Install
begin

text \<open>
  \<^verbatim>\<open>subsystems/checkpoint\<close>: pausing a running process into a checkpoint and resuming one, over
  the registry, the announcements of pauses, and the files under \<^verbatim>\<open>~/.cybershuttle/checkpoints\<close>.
  CRIU is a command: what it does to the program and its files is the environment's.
\<close>

definition criu :: "env \<Rightarrow> string" where
  "criu e = Which e ''criu''"

definition criuArgs :: "env \<Rightarrow> string list" where
  "criuArgs e = [''--shell-job'', ''--tcp-established''] @ (if geteuid e \<noteq> 0 then [''--unprivileged''] else [])"

record snapshot =
  snap_pid :: int
  snap_stdout :: string
  snap_stderr :: string

text \<open>
  \<^verbatim>\<open>json.Marshal\<close> and \<^verbatim>\<open>json.Unmarshal\<close> of a snapshot: the reader takes the fields it knows,
  leaves an absent or \<^verbatim>\<open>null\<close> one at its zero and refuses one of another type. Field names are
  compared as they were written.
\<close>

definition snapshot_json :: "snapshot \<Rightarrow> json" where
  "snapshot_json r = JObj [(''pid'', JNum (snap_pid r)), (''stdout'', JStr (snap_stdout r)),
     (''stderr'', JStr (snap_stderr r))]"

definition int_field :: "(string \<times> json) list \<Rightarrow> string \<Rightarrow> int option" where
  "int_field kvs key = (case map_of kvs key of
       None \<Rightarrow> Some 0 | Some JNull \<Rightarrow> Some 0 | Some (JNum n) \<Rightarrow> Some n | _ \<Rightarrow> None)"

definition string_field :: "(string \<times> json) list \<Rightarrow> string \<Rightarrow> string option" where
  "string_field kvs key = (case map_of kvs key of
       None \<Rightarrow> Some [] | Some JNull \<Rightarrow> Some [] | Some (JStr s) \<Rightarrow> Some s | _ \<Rightarrow> None)"

definition snapshot_of_json :: "json \<Rightarrow> snapshot option" where
  "snapshot_of_json j = (case j of
       JObj kvs \<Rightarrow>
         (case (int_field kvs ''pid'', string_field kvs ''stdout'', string_field kvs ''stderr'') of
            (Some pid, Some out, Some err) \<Rightarrow> Some \<lparr>snap_pid = pid, snap_stdout = out, snap_stderr = err\<rparr>
          | _ \<Rightarrow> None)
     | JNull \<Rightarrow> Some \<lparr>snap_pid = 0, snap_stdout = [], snap_stderr = []\<rparr>
     | _ \<Rightarrow> None)"

definition read_snapshot :: "content option \<Rightarrow> snapshot option" where
  "read_snapshot data = (case data of Some (Json j) \<Rightarrow> snapshot_of_json j | _ \<Rightarrow> None)"

definition imagesDir :: "env \<Rightarrow> string \<Rightarrow> string" where
  "imagesDir e key = path_join [install_Dir e, ''checkpoints'', key]"

definition fd_link :: "int \<Rightarrow> nat \<Rightarrow> string" where
  "fd_link pid fd = ''/proc/'' @ itoa pid @ ''/fd/'' @ itoa (int fd + 1)"

definition snapshot_of :: "env \<Rightarrow> nat \<Rightarrow> Task \<Rightarrow> snapshot" where
  "snapshot_of e n t = \<lparr>snap_pid = Pid t,
     snap_stdout = trim_prefix (readlink e n (fd_link (Pid t) 0)) ''/'',
     snap_stderr = trim_prefix (readlink e n (fd_link (Pid t) 1)) ''/''\<rparr>"

definition dump_command :: "env \<Rightarrow> int \<Rightarrow> string \<Rightarrow> command" where
  "dump_command e pid part =
     \<lparr>argv = criu e # [''dump'', ''-t'', itoa pid, ''--images-dir'', part] @ criuArgs e, Dir = [], Env = []\<rparr>"

text \<open>The steps of a dump, each run when the one before it succeeded.\<close>

definition dump_steps :: "env \<Rightarrow> string \<Rightarrow> int \<Rightarrow> snapshot \<Rightarrow> sys \<Rightarrow> string option \<times> sys" where
  "dump_steps e images pid r s =
     (let part = images @ ''.part''; (err, s) = os_MkdirAll e part s in
      if err \<noteq> None then (err, s) else
      let (err, s) = tasks_Exec e (dump_command e pid part) s in
      if err \<noteq> None then (err, s) else
      let (err, s) = os_WriteFile e (path_add part ''snapshot'') (Json (snapshot_json r)) s in
      if err \<noteq> None then (err, s) else
      let s = os_RemoveAll e images s in os_Rename e part images s)"

definition pause :: "env \<Rightarrow> sys action" where
  "pause e = (\<lambda>params s.
     let key = Str params ''id'' in
     if criu e = [] then ((501, JNull, ''criu is not on PATH''), s) else
     let (listed, s) = tasks_Select e Process s in
     case List.find (\<lambda>t. ID t = key \<and> State t = StateRunning) listed of
       None \<Rightarrow> ((404, JNull, ''no running process '' @ key), s)
     | Some t \<Rightarrow>
        (let r = snapshot_of e (tick s) t; images = imagesDir e key;
             s = Pausing e key True s; (err, s) = dump_steps e images (Pid t) r s in
         case err of
           Some err \<Rightarrow>
             (let s = Pausing e key False s; s = os_RemoveAll e (images @ ''.part'') s
              in ((500, JNull, err), s))
         | None \<Rightarrow> ((200, obj [(''id'', JStr key), (''dir'', JStr images)], []), s)))"

definition inherit_fd :: "nat \<Rightarrow> string \<Rightarrow> string list" where
  "inherit_fd fd name = (if name \<noteq> [] then [''--inherit-fd'', ''fd['' @ itoa (int fd + 1) @ '']:'' @ name] else [])"

definition restore_argv :: "env \<Rightarrow> string \<Rightarrow> snapshot \<Rightarrow> string list" where
  "restore_argv e images r =
     [criu e, ''restore'', ''--images-dir'', images] @ criuArgs e @
     inherit_fd 0 (snap_stdout r) @ inherit_fd 1 (snap_stderr r)"

definition resume :: "env \<Rightarrow> sys action" where
  "resume e = (\<lambda>params s.
     let key = Str params ''id'' in
     if criu e = [] then ((501, JNull, ''criu is not on PATH''), s) else
     let images = imagesDir e key; (data, s) = os_ReadFile e (path_add images ''snapshot'') s in
     case read_snapshot data of
       None \<Rightarrow> ((404, JNull, ''no checkpoint '' @ key), s)
     | Some r \<Rightarrow>
         servers_Run e (zero_task\<lparr>Kind := Process, ID := key, Pid := snap_pid r\<rparr>) (restore_argv e images r) s)"

definition checkpoint_Actions :: "env \<Rightarrow> (string \<times> sys action) list" where
  "checkpoint_Actions e = [(''pause'', pause e), (''resume'', resume e)]"

definition checkpoint_Router :: "env \<Rightarrow> sys action Router" where
  "checkpoint_Router e = New ''/checkpoint''
     [(''POST /pause'', the (map_of (checkpoint_Actions e) ''pause'')),
      (''POST /resume'', the (map_of (checkpoint_Actions e) ''resume''))]"

section \<open>Lemmas\<close>

interpretation snapshot: codec snapshot_json snapshot_of_json "\<lambda>_. True"
  by unfold_locales (simp add: snapshot_json_def snapshot_of_json_def int_field_def string_field_def)

lemma inside_refl [simp]: "inside dir dir"
  by (simp add: inside_def)

lemma inside_part [simp]: "\<not> inside dir (dir @ ''.part'')"
  by (auto simp: inside_def has_prefix_split)

lemma inside_disjoint: "inside dir p \<Longrightarrow> \<not> inside (dir @ ''.part'') p"
  by (auto simp: inside_def has_prefix_split)

lemma inside_length: "inside dir p \<Longrightarrow> length dir \<le> length p"
  by (auto simp: inside_def has_prefix_split)

lemma inside_add: "dir \<noteq> ''/'' \<Longrightarrow> inside dir (path_add dir name)"
  by (auto simp: inside_def path_add_def has_prefix_split)

lemma parent_dir_part: "parent_dir (path @ ''.part'') = parent_dir path"
  by (simp add: parent_dir_def)

lemma MkdirAll_part:
  assumes "inside dir p" and "dir \<noteq> []"
  shows "MkdirAll (dir @ ''.part'') d p = d p"
proof -
  have "p \<notin> set (ancestors n (dir @ ''.part''))" for n
  proof (cases n)
    case (Suc m)
    have "length p \<le> length (parent_dir dir)" if "p \<in> set (ancestors m (parent_dir dir))"
      using that by (rule ancestors_length)
    with inside_length [OF assms(1)] parent_dir_shorter [OF assms(2)] assms(1) show ?thesis
      by (auto simp: Suc parent_dir_part)
  qed simp
  then show ?thesis unfolding MkdirAll_def by (intro if_not_P) blast
qed

lemma MkdirAll_makes: "path \<noteq> [] \<Longrightarrow> MkdirAll path d path \<noteq> None"
  by (cases path) (simp_all add: MkdirAll_def)

lemma dump_steps_fail:
  assumes run: "dump_steps e dir pid r s = (Some err, s')" and dir: "dir \<noteq> []" and p: "inside dir p"
    and others: "\<And>s. disk (others e s) p = disk s p" "\<And>s. disk (others e s) (dir @ ''.part'') = disk s (dir @ ''.part'')"
    and during: "\<And>cmd s. disk (during e cmd s) p = disk s p"
      "\<And>cmd s. disk s (dir @ ''.part'') \<noteq> None \<Longrightarrow> disk (during e cmd s) (dir @ ''.part'') \<noteq> None"
    and rename: "\<And>n. fs_error e n ''rename'' dir = None"
  shows "disk s' p = disk s p"
proof -
  have part: "MkdirAll (dir @ ''.part'') d (dir @ ''.part'') \<noteq> None" for d :: disk
    by (rule MkdirAll_makes) simp
  have np: "p \<noteq> path_add (dir @ ''.part'') ''snapshot''" "dir @ ''.part'' \<noteq> path_add (dir @ ''.part'') ''snapshot''"
    using inside_disjoint [OF p] inside_add [of "dir @ ''.part''" "''snapshot''"] dir
    by (auto simp: path_add_def)
  have kept: "disk (during e cmd (turn e (t\<lparr>disk := MkdirAll (dir @ ''.part'') d\<rparr>))) (dir @ ''.part'') \<noteq> None"
    for cmd t d by (rule during(2)) (use part in \<open>simp add: others(2)\<close>)
  show ?thesis
    using run [symmetric] np
    by (simp add: kept dump_steps_def os_MkdirAll_def tasks_Exec_def os_WriteFile_def os_RemoveAll_def os_Rename_def
        Let_def others during(1) rename MkdirAll_part [OF p dir] RemoveAll_def split: option.splits if_splits)
qed


lemma dump_steps_done:
  assumes run: "dump_steps e dir pid r s = (None, s')" and others: "\<And>s. disk (others e s) = disk s"
    and dir: "dir \<noteq> ''/''" "dir \<noteq> []"
  shows "disk s' (path_add dir ''snapshot'') = Some (Regular (Json (snapshot_json r)))"
proof -
  have snap: "path_add dir ''snapshot'' = dir @ ''/snapshot''" "path_add (dir @ ''.part'') ''snapshot'' = dir @ ''.part/snapshot''"
    using dir by (auto simp: path_add_def)
  have "inside dir (dir @ ''/snapshot'')" "\<not> inside dir (dir @ ''.part/snapshot'')"
    by (auto simp: inside_def has_prefix_split)
  then show ?thesis
    using run [symmetric] unfolding snap
    by (auto simp: dump_steps_def os_MkdirAll_def tasks_Exec_def os_WriteFile_def os_RemoveAll_def os_Rename_def
        Let_def others RemoveAll_def Rename_def snap split: option.splits if_splits)
qed

section \<open>A running process\<close>

lemma imagesDir_demo: "imagesDir (quiet_env r) ''p'' = ''/home/u/.cybershuttle/checkpoints/p''"
  by (simp add: imagesDir_def install_Dir_def path_join_def clean_path_def Let_def)

definition demo_process :: Task where
  "demo_process = zero_task\<lparr>ID := ''p'', Kind := Process, State := StateRunning, Pid := 7,
     Work := ChildWork \<lparr>argv = [''sleep''], Dir = [], Env = []\<rparr>\<rparr>"

definition demo_sys :: "disk \<Rightarrow> sys" where
  "demo_sys d = \<lparr>tasks = empty_world\<lparr>nextp := 1, reg := [(''p'', 0)],
       cells := [0 \<mapsto> \<lparr>task = demo_process, cancelled = False, finished = False, ln_open = False, pc = GWait 7 Live\<rparr>]\<rparr>,
     pausing = {}, disk = d, tick = 0\<rparr>"

lemma demo_Select: "Select Process (tasks (demo_sys d)) = [demo_process]"
  by (simp add: demo_sys_def Select_def held_def demo_process_def zero_task_def Process_def map_filter_def)

lemma quiet_dump: "\<exists>s'. dump_steps (quiet_env None) dir pid r s = (None, s')"
proof -
  have "MkdirAll (dir @ ''.part'') d (dir @ ''.part'') \<noteq> None" for d :: disk
    by (rule MkdirAll_makes) simp
  then show ?thesis
    by (simp add: dump_steps_def os_MkdirAll_def tasks_Exec_def os_WriteFile_def os_RemoveAll_def os_Rename_def
      Let_def RemoveAll_def)
qed

section \<open>Properties\<close>




text \<open>C19: what was paused is what is resumed. After a pause that answers 200, \<^verbatim>\<open>resume\<close> of the same id
  runs \<^verbatim>\<open>criu restore\<close> over its images as a process of that id, standing for the pid that was
  dumped, and hands it the stdout and stderr the dumped process had.\<close>

theorem resume_restores_the_paused_process:
  assumes run: "pause e params s = ((200, body, msg), s')"
    and others: "\<And>s. disk (others e s) = disk s"
    and dir: "dir = imagesDir e (Str params ''id'')" "dir \<noteq> ''/''"
    and read: "\<And>n. fs_error e n ''read'' (path_add dir ''snapshot'') = None"
  shows "\<exists>t n. t \<in> set (Select Process (tasks (turn e s))) \<and> ID t = Str params ''id'' \<and> State t = StateRunning \<and>
    resume e params s' =
      servers_Run e (zero_task\<lparr>Kind := Process, ID := ID t, Pid := Pid t\<rparr>)
        ([criu e, ''restore'', ''--images-dir'', dir] @ criuArgs e @
         inherit_fd 0 (trim_prefix (readlink e n (fd_link (Pid t) 0)) ''/'') @
         inherit_fd 1 (trim_prefix (readlink e n (fd_link (Pid t) 1)) ''/'')) (turn e s')"
proof -
  have ne: "dir \<noteq> []" unfolding dir imagesDir_def by (rule path_join_nonempty [of "''checkpoints''"]) simp_all
  have criu: "criu e \<noteq> []" using run by (auto simp: pause_def)
  from run criu obtain t where t: "List.find (\<lambda>t. ID t = Str params ''id'' \<and> State t = StateRunning)
      (Select Process (tasks (turn e s))) = Some t"
    by (auto simp: pause_def tasks_Select_def Let_def split: option.splits)
  let ?n = "tick (turn e s)"
  from run criu t have "dump_steps e dir (Pid t) (snapshot_of e ?n t)
      (Pausing e (Str params ''id'') True (turn e s)) = (None, s')"
    by (auto simp: pause_def tasks_Select_def Let_def dir split: option.splits prod.splits simp del: turn_simps)
  from dump_steps_done [OF this others dir(2) ne]
  have "disk s' (path_add dir ''snapshot'') = Some (Regular (Json (snapshot_json (snapshot_of e ?n t))))" .
  then have "resume e params s' = servers_Run e (zero_task\<lparr>Kind := Process, ID := Str params ''id'', Pid := Pid t\<rparr>)
      (restore_argv e dir (snapshot_of e ?n t)) (turn e s')"
    using criu read by (simp add: resume_def os_ReadFile_def Let_def dir others read_snapshot_def
      snapshot.dec_enc snapshot_of_def)
  moreover from t have "t \<in> set (Select Process (tasks (turn e s)))" "ID t = Str params ''id''" "State t = StateRunning"
    by (auto simp: find_Some_iff)
  ultimately show ?thesis
    by (intro exI [of _ t] exI [of _ ?n]) (simp add: restore_argv_def snapshot_of_def)
qed

theorem resume_restores_the_paused_process_witness:
  "\<exists>body s' argv. pause (quiet_env None) [''id'' \<mapsto> JStr ''p''] (demo_sys Map.empty) = ((200, body, []), s') \<and>
     resume (quiet_env None) [''id'' \<mapsto> JStr ''p''] s' =
       servers_Run (quiet_env None) (zero_task\<lparr>Kind := Process, ID := ''p'', Pid := 7\<rparr>) argv (turn (quiet_env None) s')"
proof -
  let ?e = "quiet_env None" and ?ps = "[''id'' \<mapsto> JStr ''p'']" and ?s = "demo_sys Map.empty"
  obtain s' where "dump_steps ?e (imagesDir ?e ''p'') (Pid demo_process) (snapshot_of ?e (tick (turn ?e ?s)) demo_process)
      (Pausing ?e ''p'' True (turn ?e ?s)) = (None, s')" using quiet_dump by blast
  then have "\<exists>body s'. pause ?e ?ps ?s = ((200, body, []), s')"
    by (simp add: pause_def criu_def Which_def tasks_Select_def demo_Select Let_def demo_process_def zero_task_def)
  then obtain body s' where run: "pause ?e ?ps ?s = ((200, body, []), s')" by blast
  have dir: "imagesDir ?e ''p'' = imagesDir ?e (Str ?ps ''id'')" "imagesDir ?e ''p'' \<noteq> ''/''"
    by (simp_all add: imagesDir_demo)
  have "\<And>s. disk (others ?e s) = disk s" "\<And>n. fs_error ?e n ''read'' (path_add (imagesDir ?e ''p'') ''snapshot'') = None"
    by simp_all
  from resume_restores_the_paused_process [OF run this(1) dir this(2)] obtain t argv where
    "t \<in> set (Select Process (tasks (turn ?e ?s)))"
    "resume ?e ?ps s' = servers_Run ?e (zero_task\<lparr>Kind := Process, ID := ID t, Pid := Pid t\<rparr>) argv (turn ?e s')" by blast
  moreover from this(1) have "t = demo_process" by (simp add: demo_Select)
  then have "ID t = ''p''" "Pid t = 7" by (simp_all add: demo_process_def)
  ultimately show ?thesis using run by auto
qed

text \<open>The id is not confined to the checkpoints: one with parent elements names a folder anywhere
  below the home directory, which a pause then removes and replaces by its images.\<close>

theorem imagesDir_of_a_parent_path:
  assumes "home e = ''/home/u''" and "CHR ''/'' \<notin> set name" and "name \<notin> {[], ''.'', ''..''}"
  shows "imagesDir e (''../../'' @ name) = ''/home/u/'' @ name"
proof -
  have "install_Dir e = ''/home/u/.cybershuttle''"
    by (simp add: install_Dir_def assms(1) path_join_def clean_path_def Let_def)
  then show ?thesis
    using assms(2,3)
    by (simp add: imagesDir_def path_join_def clean_path_def Let_def split_at_char_single)
qed

theorem imagesDir_of_a_parent_path_witness:
  "imagesDir (quiet_env None) ''../../work'' = ''/home/u/work''"
  using imagesDir_of_a_parent_path [of "quiet_env None" "''work''"] by simp

text \<open>A pause is announced before the dump is known to succeed, and the announcement alone decides what
  \<^verbatim>\<open>Run\<close> answers: a process that exits by itself in between is answered 202, as paused, while the pause is
  answered 500. \<open>announced_env\<close> is a wait during which both happen.\<close>

definition announced_env :: env where
  "announced_env = (quiet_env None)\<lparr>until_done := (\<lambda>p s.
     s\<lparr>tasks := (advance None p ^^ 29) (tasks s), pausing := insert ''p'' (pausing s)\<rparr>)\<rparr>"

theorem failed_pause_is_answered_as_a_pause:
  "fst (fst (servers_Run announced_env (zero_task\<lparr>Kind := Process, ID := ''p''\<rparr>) [''true'']
     \<lparr>tasks = empty_world, pausing = {}, disk = d, tick = 0\<rparr>)) = 202 \<and>
   fst (pause (quiet_env (Some err)) [''id'' \<mapsto> JStr ''p''] (demo_sys d)) = (500, JNull, err)"
proof
  let ?t = "zero_task\<lparr>Kind := Process, ID := ''p''\<rparr>" and ?s = "\<lparr>tasks = empty_world, pausing = {}, disk = d, tick = 0\<rparr>"
  have "Addr ?t = []" "ID ?t = ''p''" by (simp_all add: zero_task_def)
  note started = servers_Start_eq [OF this(1), of announced_env "[''true'']" ?s]
  have key: "ID (process_started announced_env ?t [''true''] ?s) = ''p''"
    by (simp add: process_started_simps cmp_or_def)
  have env: "others announced_env s = s" for s by (simp add: announced_env_def)
  show "fst (fst (servers_Run announced_env ?t [''true''] ?s)) = 202"
    by (simp add: servers_Run_def started servers_Wait_def tasks_Wait_def lookup_register key env Let_def
      case_prod_beta) (simp add: announced_env_def)
next
  show "fst (pause (quiet_env (Some err)) [''id'' \<mapsto> JStr ''p''] (demo_sys d)) = (500, JNull, err)"
    by (simp add: pause_def criu_def Which_def tasks_Select_def demo_Select demo_process_def Pausing_def
      dump_steps_def os_MkdirAll_def tasks_Exec_def Let_def zero_task_def)
qed

end
