(* ===== verification/Workflow.thy ===== *)
theory Workflow
  imports Servers
begin

text \<open>
  \<^verbatim>\<open>subsystems/workflow\<close>: the steps of a document and the moments they run at. The YAML decoder is
  an argument; it refuses fields the document does not have. The loaded document, which is set
  once at start, is an argument of what reads it.
\<close>

definition workflow_signals :: "string list" where
  "workflow_signals = [''SIGUSR1'', ''SIGUSR2'', ''SIGHUP'']"

record step_doc =
  Name :: string
  Ref :: string
  Action :: string
  Params :: params

record Step = step_doc +
  run :: "sys action"

record trigger_doc =
  On :: string
  Steps :: "step_doc list"

record Trigger =
  moment :: string
  steps :: "Step list"

section \<open>\<^verbatim>\<open>shell.exec\<close>\<close>

definition exec_action :: "env \<Rightarrow> sys action" where
  "exec_action e = (\<lambda>params s.
     let cmd = Str params ''command'' in
     if trim_space cmd = [] then ((400, JNull, ''command is required''), s)
     else servers_Run e (zero_task\<lparr>Kind := Process, ID := Str params ''ref''\<rparr>) [''sh'', ''-c'', cmd] s)"

definition workflow_Actions :: "env \<Rightarrow> (string \<times> sys action) list" where
  "workflow_Actions e = [(''shell.exec'', exec_action e)]"

definition workflow_Router :: "env \<Rightarrow> sys action Router" where
  "workflow_Router e = New ''/workflow'' [(''POST /shell/exec'', the (map_of (workflow_Actions e) ''shell.exec''))]"

section \<open>Run\<close>

text \<open>
  The id of what a step created: the answer is encoded and decoded into a struct with the one
  field \<^verbatim>\<open>ID\<close>, whose name is matched in any case; a value of another type is an error.
\<close>

definition is_id_key :: "string \<Rightarrow> bool" where
  "is_id_key key \<longleftrightarrow> key \<in> {''id'', ''iD'', ''Id'', ''ID''}"

fun decode_id :: "(string \<times> json) list \<Rightarrow> string \<Rightarrow> string option" where
  "decode_id [] acc = Some acc"
| "decode_id ((key, v) # kvs) acc =
     (if is_id_key key then
        (case v of JStr s \<Rightarrow> decode_id kvs s | JNull \<Rightarrow> decode_id kvs acc | _ \<Rightarrow> None)
      else decode_id kvs acc)"

definition created_id :: "json \<Rightarrow> string option" where
  "created_id out = (case out of
       JObj kvs \<Rightarrow> (case decode_id kvs [] of Some key \<Rightarrow> if key \<noteq> [] then Some key else None | None \<Rightarrow> None)
     | _ \<Rightarrow> None)"

datatype progress = Continued "string list" | Broke "string list" | StepFailed string

definition step_error :: "nat \<Rightarrow> Step \<Rightarrow> int \<Rightarrow> string \<Rightarrow> string" where
  "step_error i st status msg =
     ''step '' @ itoa (int i + 1) @ '' ('' @ Name st @ ''): '' @ Action st @ '': '' @ itoa status @ '' '' @ msg"

fun run_steps_of :: "nat \<Rightarrow> Step list \<Rightarrow> string list \<Rightarrow> sys \<Rightarrow> progress \<times> sys" where
  "run_steps_of i [] started s = (Continued started, s)"
| "run_steps_of i (st # rest) started s =
     (let ((status, out, msg), s) = run st (Params st) s in
      if status < 200 \<or> status \<ge> 300 then (StepFailed (step_error i st status msg), s)
      else let started = (case created_id out of Some key \<Rightarrow> started @ [key] | None \<Rightarrow> started) in
      if status = 202 then (Broke started, s)
      else run_steps_of (Suc i) rest started s)"

fun run_triggers :: "string \<Rightarrow> Trigger list \<Rightarrow> string list \<Rightarrow> sys \<Rightarrow> progress \<times> sys" where
  "run_triggers mo [] started s = (Continued started, s)"
| "run_triggers mo (t # ts) started s =
     (if moment t \<noteq> mo then run_triggers mo ts started s
      else case run_steps_of 0 (steps t) started s of
          (Continued started, s) \<Rightarrow> run_triggers mo ts started s
        | stopped \<Rightarrow> stopped)"

fun wait_each :: "env \<Rightarrow> string list \<Rightarrow> sys \<Rightarrow> sys" where
  "wait_each e [] s = s"
| "wait_each e (key # keys) s = wait_each e keys (snd (tasks_Wait e key s))"

definition workflow_Run :: "env \<Rightarrow> Trigger list \<Rightarrow> string \<Rightarrow> sys \<Rightarrow> string option \<times> sys" where
  "workflow_Run e loaded mo s = (case run_triggers mo loaded [] s of
       (StepFailed err, s) \<Rightarrow> (Some err, s)
     | (Continued started, s) \<Rightarrow> (None, wait_each e started s)
     | (Broke started, s) \<Rightarrow> (None, wait_each e started s))"

section \<open>Load\<close>

definition known_moment :: "string \<Rightarrow> bool" where
  "known_moment mo \<longleftrightarrow> mo \<in> set workflow_signals \<or> mo = ''start'' \<or> mo = ''ready'' \<or> mo = ''stop''"

definition step_params :: "step_doc \<Rightarrow> params" where
  "step_params d = (if Ref d \<noteq> [] then (Params d)(''ref'' \<mapsto> JStr (Ref d)) else Params d)"

definition bind_step :: "step_doc \<Rightarrow> sys action \<Rightarrow> Step" where
  "bind_step d a = \<lparr>Name = Name d, Ref = Ref d, Action = Action d, Params = step_params d, run = a\<rparr>"

fun load_steps :: "nat \<Rightarrow> (string \<times> sys action) list \<Rightarrow> step_doc list \<Rightarrow> string + Step list" where
  "load_steps i actions [] = Inr []"
| "load_steps i actions (d # ds) =
     (case map_of actions (Action d) of
        None \<Rightarrow> Inl (''workflow: trigger '' @ itoa (int i + 1) @ '' ('' @ Name d @ ''): unknown action '' @ quoted (Action d))
      | Some a \<Rightarrow>
         (case load_steps i actions ds of Inl err \<Rightarrow> Inl err | Inr sts \<Rightarrow> Inr (bind_step d a # sts)))"

fun load_triggers :: "nat \<Rightarrow> (string \<times> sys action) list \<Rightarrow> trigger_doc list \<Rightarrow> string + Trigger list" where
  "load_triggers i actions [] = Inr []"
| "load_triggers i actions (t # ts) =
     (let mo = cmp_or [] (On t) ''start'' in
      if \<not> known_moment mo
      then Inl (''workflow: trigger '' @ itoa (int i + 1) @ '': unknown '' @ quoted mo)
      else if Steps t = []
      then Inl (''workflow: trigger '' @ itoa (int i + 1) @ '': no steps'')
      else case load_steps i actions (Steps t) of
          Inl err \<Rightarrow> Inl err
        | Inr sts \<Rightarrow>
           (case load_triggers (Suc i) actions ts of
              Inl err \<Rightarrow> Inl err
            | Inr all \<Rightarrow> Inr (\<lparr>moment = mo, steps = sts\<rparr> # all)))"

definition Load ::
  "(string \<Rightarrow> string + string) \<Rightarrow> (string \<Rightarrow> string + trigger_doc list) \<Rightarrow> string
   \<Rightarrow> (string \<times> sys action) list \<Rightarrow> string + Trigger list" where
  "Load read_file parse_yaml path actions = (case read_file path of
       Inl err \<Rightarrow> Inl (''workflow: read: '' @ err)
     | Inr data \<Rightarrow>
        (case parse_yaml data of
           Inl err \<Rightarrow> Inl (''workflow: parse: '' @ err)
         | Inr doc \<Rightarrow> if doc = [] then Inl ''workflow: no tasks'' else load_triggers 0 actions doc))"

section \<open>The task \<^verbatim>\<open>Start\<close> returns\<close>

text \<open>
  Two goroutines: the one that runs the start and then the ready steps, and the task's own loop,
  which runs a signal's steps, ends the job or returns. The channel of signals holds one; one
  that finds it full is dropped. A moment's run ends with an answer of \<^const>\<open>workflow_Run\<close>, for any
  state it may begin in and anything that happens beside it.
\<close>

datatype setup_pc = RunsStart | RunsReady | SetupSent "string option" | SetupReceived

datatype loop_pc = Selecting | RunsSignal string | Returned "string option"

datatype wf_event = Began string | Ended string "string option" | Sigterm

record wf =
  setup_goroutine :: setup_pc
  loop :: loop_pc
  ch :: "string option"
  ctx_done :: bool
  trace :: "wf_event list"

definition wf_init :: "wf \<Rightarrow> bool" where
  "wf_init s \<longleftrightarrow> s = \<lparr>setup_goroutine = RunsStart, loop = Selecting, ch = None, ctx_done = False,
     trace = [Began ''start'']\<rparr>"

definition notified :: "Trigger list \<Rightarrow> string \<Rightarrow> bool" where
  "notified loaded sig \<longleftrightarrow> sig \<in> set workflow_signals \<and> list_ex (\<lambda>t. moment t = sig) loaded"

definition run_ends :: "Trigger list \<Rightarrow> string \<Rightarrow> string option \<Rightarrow> bool" where
  "run_ends loaded mo r \<longleftrightarrow> (\<exists>e s s'. workflow_Run e loaded mo s = (r, s'))"

inductive wf_step :: "Trigger list \<Rightarrow> wf \<Rightarrow> wf \<Rightarrow> bool" for loaded :: "Trigger list" where
  start_ends: "setup_goroutine s = RunsStart \<Longrightarrow> run_ends loaded ''start'' None \<Longrightarrow>
    wf_step loaded s (s\<lparr>setup_goroutine := RunsReady, trace := trace s @ [Ended ''start'' None, Began ''ready'']\<rparr>)"
| start_fails: "setup_goroutine s = RunsStart \<Longrightarrow> run_ends loaded ''start'' (Some e) \<Longrightarrow>
    wf_step loaded s (s\<lparr>setup_goroutine := SetupSent (Some e), trace := trace s @ [Ended ''start'' (Some e)]\<rparr>)"
| ready_ends: "setup_goroutine s = RunsReady \<Longrightarrow> run_ends loaded ''ready'' r \<Longrightarrow>
    wf_step loaded s (s\<lparr>setup_goroutine := SetupSent r, trace := trace s @ [Ended ''ready'' r]\<rparr>)"
| signal_arrives: "notified loaded sig \<Longrightarrow>
    wf_step loaded s (s\<lparr>ch := (case ch s of None \<Rightarrow> Some sig | Some pending \<Rightarrow> Some pending)\<rparr>)"
| cancelled: "wf_step loaded s (s\<lparr>ctx_done := True\<rparr>)"
| sees_done: "loop s = Selecting \<Longrightarrow> ctx_done s \<Longrightarrow> wf_step loaded s (s\<lparr>loop := Returned None\<rparr>)"
| sees_failure: "loop s = Selecting \<Longrightarrow> setup_goroutine s = SetupSent (Some e) \<Longrightarrow>
    wf_step loaded s (s\<lparr>loop := Returned (Some e), setup_goroutine := SetupReceived\<rparr>)"
| sees_setup: "loop s = Selecting \<Longrightarrow> setup_goroutine s = SetupSent None \<Longrightarrow>
    wf_step loaded s (s\<lparr>setup_goroutine := SetupReceived, trace := trace s @ [Sigterm]\<rparr>)"
| sees_signal: "loop s = Selecting \<Longrightarrow> ch s = Some sig \<Longrightarrow>
    wf_step loaded s (s\<lparr>loop := RunsSignal sig, ch := None, trace := trace s @ [Began sig]\<rparr>)"
| signal_ends: "loop s = RunsSignal sig \<Longrightarrow> run_ends loaded sig None \<Longrightarrow>
    wf_step loaded s (s\<lparr>loop := Selecting, trace := trace s @ [Ended sig None]\<rparr>)"
| signal_fails: "loop s = RunsSignal sig \<Longrightarrow> run_ends loaded sig (Some e) \<Longrightarrow>
    wf_step loaded s (s\<lparr>loop := Returned (Some e), trace := trace s @ [Ended sig (Some e)]\<rparr>)"

section \<open>The steps of a run\<close>

text \<open>What running steps one after another answers, and where it ends.\<close>

fun run_all :: "Step list \<Rightarrow> sys \<Rightarrow> answer list \<times> sys" where
  "run_all [] s = ([], s)"
| "run_all (st # rest) s =
     (let (a, s) = run st (Params st) s; (as, s) = run_all rest s in (a # as, s))"

definition went_on :: "answer \<Rightarrow> bool" where
  "went_on a \<longleftrightarrow> 200 \<le> fst a \<and> fst a < 300 \<and> fst a \<noteq> 202"

definition failed :: "answer \<Rightarrow> bool" where
  "failed a \<longleftrightarrow> fst a < 200 \<or> 300 \<le> fst a"

definition ids_of :: "answer list \<Rightarrow> string list" where
  "ids_of as = List.map_filter (\<lambda>(status, out, msg). created_id out) as"

definition at_moment :: "string \<Rightarrow> Trigger list \<Rightarrow> Step list" where
  "at_moment mo ts = concat (map steps (filter (\<lambda>t. moment t = mo) ts))"

text \<open>\<open>ran all started s out s'\<close>: which steps were run, and why no more.\<close>

definition ran :: "Step list \<Rightarrow> string list \<Rightarrow> sys \<Rightarrow> progress \<Rightarrow> sys \<Rightarrow> bool" where
  "ran all started s out s' \<longleftrightarrow> (\<exists>n as. n \<le> length all \<and> run_all (take n all) s = (as, s') \<and>
     list_all went_on (butlast as) \<and>
     (case out of
        Continued ids \<Rightarrow> n = length all \<and> list_all went_on as \<and> ids = started @ ids_of as
      | Broke ids \<Rightarrow> as \<noteq> [] \<and> fst (last as) = 202 \<and> ids = started @ ids_of as
      | StepFailed err \<Rightarrow> as \<noteq> [] \<and> failed (last as)))"

lemma run_all_length: "run_all sts s = (as, s') \<Longrightarrow> length as = length sts"
  by (induction sts arbitrary: s as) (auto split: prod.splits)

lemma run_all_append:
  "run_all xs s = (as, s1) \<Longrightarrow> run_all ys s1 = (bs, s2) \<Longrightarrow> run_all (xs @ ys) s = (as @ bs, s2)"
  by (induction xs arbitrary: s as) (auto split: prod.splits)

lemma ids_of_simps [simp]:
  "ids_of [] = []"
  "ids_of (a # as) = (case created_id (fst (snd a)) of Some key \<Rightarrow> key # ids_of as | None \<Rightarrow> ids_of as)"
  "ids_of (as @ bs) = ids_of as @ ids_of bs"
  by (simp_all add: ids_of_def List.map_filter_def split: option.split prod.split)

lemma ran_Nil: "ran [] started s (Continued started) s"
  by (simp add: ran_def)

lemma ran_more:
  assumes "run st (Params st) s = (a, s1)" and "went_on a"
    and "ran rest (started @ ids_of [a]) s1 out s2"
  shows "ran (st # rest) started s out s2"
proof -
  obtain n as where n: "n \<le> length rest" "run_all (take n rest) s1 = (as, s2)" "list_all went_on (butlast as)"
    and out: "case out of
        Continued ids \<Rightarrow> n = length rest \<and> list_all went_on as \<and> ids = (started @ ids_of [a]) @ ids_of as
      | Broke ids \<Rightarrow> as \<noteq> [] \<and> fst (last as) = 202 \<and> ids = (started @ ids_of [a]) @ ids_of as
      | StepFailed err \<Rightarrow> as \<noteq> [] \<and> failed (last as)"
    using assms(3) unfolding ran_def by blast
  have ids: "started @ ids_of (a # as) = (started @ ids_of [a]) @ ids_of as"
    by (simp split: option.split)
  show ?thesis
    unfolding ran_def
  proof (intro exI [of _ "Suc n"] exI [of _ "a # as"] conjI)
    show "Suc n \<le> length (st # rest)" "run_all (take (Suc n) (st # rest)) s = (a # as, s2)"
      using n assms(1) by simp_all
    show "list_all went_on (butlast (a # as))" using n(3) assms(2) by simp
    show "case out of
        Continued ids \<Rightarrow> Suc n = length (st # rest) \<and> list_all went_on (a # as) \<and> ids = started @ ids_of (a # as)
      | Broke ids \<Rightarrow> a # as \<noteq> [] \<and> fst (last (a # as)) = 202 \<and> ids = started @ ids_of (a # as)
      | StepFailed err \<Rightarrow> a # as \<noteq> [] \<and> failed (last (a # as))"
      unfolding ids using out assms(2) by (simp split: progress.splits)
  qed
qed

lemma run_steps_of_ran: "run_steps_of i all started s = (out, s') \<Longrightarrow> ran all started s out s'"
proof (induction i all started s rule: run_steps_of.induct)
  case (2 i st rest started s)
  obtain status ans msg s1 where a: "run st (Params st) s = ((status, ans, msg), s1)"
    by (metis prod.exhaust)
  consider "status < 200 \<or> 300 \<le> status" | "status = 202" | "went_on (status, ans, msg)"
    by (cases "status < 200 \<or> 300 \<le> status"; cases "status = 202") (auto simp: went_on_def)
  then show ?case
  proof cases
    case 1
    with 2(2) a have "out = StepFailed (step_error i st status msg)" "s' = s1" by simp_all
    with 1 a show ?thesis
      unfolding ran_def by (intro exI [of _ 1] exI [of _ "[(status, ans, msg)]"]) (simp add: failed_def)
  next
    case 2
    with "2.prems" a have "out = Broke (started @ ids_of [(status, ans, msg)])" "s' = s1"
      by (auto split: option.split)
    with 2 a show ?thesis
      unfolding ran_def by (intro exI [of _ 1] exI [of _ "[(status, ans, msg)]"]) simp
  next
    case 3
    let ?more = "started @ ids_of [(status, ans, msg)]"
    have more: "?more = (case created_id ans of Some key \<Rightarrow> started @ [key] | None \<Rightarrow> started)"
      by (simp split: option.split)
    from 3 have ok: "\<not> (status < 200 \<or> 300 \<le> status)" "status \<noteq> 202" by (auto simp: went_on_def)
    with 2(2) a have rec: "run_steps_of (Suc i) rest ?more s1 = (out, s')"
      unfolding more by simp
    have "ran rest ?more s1 out s'"
      using 2(1) [OF a [symmetric] refl refl refl ok(1) refl ok(2) rec [unfolded more]] unfolding more .
    with a 3 show ?thesis by (rule ran_more)
  qed
qed (auto simp: ran_Nil)

lemma ran_append:
  assumes "ran xs started s (Continued ids) s1" and "ran ys ids s1 out s2"
  shows "ran (xs @ ys) started s out s2"
proof -
  obtain as where as: "run_all xs s = (as, s1)" "list_all went_on as" "ids = started @ ids_of as"
    using assms(1) by (auto simp: ran_def)
  obtain n bs where n: "n \<le> length ys" "run_all (take n ys) s1 = (bs, s2)" "list_all went_on (butlast bs)"
    and out: "case out of
        Continued ids' \<Rightarrow> n = length ys \<and> list_all went_on bs \<and> ids' = ids @ ids_of bs
      | Broke ids' \<Rightarrow> bs \<noteq> [] \<and> fst (last bs) = 202 \<and> ids' = ids @ ids_of bs
      | StepFailed err \<Rightarrow> bs \<noteq> [] \<and> failed (last bs)"
    using assms(2) unfolding ran_def by blast
  show ?thesis
    unfolding ran_def
  proof (intro exI [of _ "length xs + n"] exI [of _ "as @ bs"] conjI)
    show "length xs + n \<le> length (xs @ ys)" using n(1) by simp
    show "run_all (take (length xs + n) (xs @ ys)) s = (as @ bs, s2)"
      using run_all_append [OF as(1) n(2)] by simp
    show "list_all went_on (butlast (as @ bs))"
      using as(2) n(3) by (cases "bs = []") (auto simp: butlast_append list_all_iff dest: in_set_butlastD)
    show "case out of
        Continued ids' \<Rightarrow> length xs + n = length (xs @ ys) \<and> list_all went_on (as @ bs) \<and> ids' = started @ ids_of (as @ bs)
      | Broke ids' \<Rightarrow> as @ bs \<noteq> [] \<and> fst (last (as @ bs)) = 202 \<and> ids' = started @ ids_of (as @ bs)
      | StepFailed err \<Rightarrow> as @ bs \<noteq> [] \<and> failed (last (as @ bs))"
      using out as(2,3) by (simp split: progress.splits)
  qed
qed

lemma ran_stopped:
  assumes "ran xs started s out s1" and "\<And>ids. out \<noteq> Continued ids"
  shows "ran (xs @ ys) started s out s1"
proof -
  obtain n as where "n \<le> length xs" "run_all (take n xs) s = (as, s1)" "list_all went_on (butlast as)"
    and "case out of
        Continued ids' \<Rightarrow> n = length xs \<and> list_all went_on as \<and> ids' = started @ ids_of as
      | Broke ids' \<Rightarrow> as \<noteq> [] \<and> fst (last as) = 202 \<and> ids' = started @ ids_of as
      | StepFailed err \<Rightarrow> as \<noteq> [] \<and> failed (last as)"
    using assms(1) unfolding ran_def by blast
  with assms(2) show ?thesis
    unfolding ran_def by (intro exI [of _ n] exI [of _ as]) (auto split: progress.splits)
qed

lemma run_triggers_ran:
  "run_triggers mo ts started s = (out, s') \<Longrightarrow> ran (at_moment mo ts) started s out s'"
proof (induction mo ts started s rule: run_triggers.induct)
  case (1 mo started s)
  then show ?case by (auto simp: at_moment_def ran_Nil)
next
  case (2 mo t ts started s)
  show ?case
  proof (cases "moment t = mo")
    case False
    with 2 show ?thesis by (simp add: at_moment_def)
  next
    case True
    obtain out1 s1 where r: "run_steps_of 0 (steps t) started s = (out1, s1)" by (rule prod.exhaust)
    have here: "at_moment mo (t # ts) = steps t @ at_moment mo ts" using True by (simp add: at_moment_def)
    note first = run_steps_of_ran [OF r]
    show ?thesis
    proof (cases out1)
      case (Continued ids)
      with 2 True r have "ran (at_moment mo ts) ids s1 out s'" by simp
      with first Continued show ?thesis unfolding here by (auto intro: ran_append)
    qed (use 2(3) True r first in \<open>auto simp: here intro: ran_stopped\<close>)
  qed
qed

section \<open>The loop\<close>

text \<open>
  What holds of every state of the task: the two goroutines' places agree with what was begun and
  ended, and the signal that ends the job is sent once, after both moments ended without error.
\<close>

fun setup_ok :: "setup_pc \<Rightarrow> wf_event list \<Rightarrow> bool" where
  "setup_ok RunsStart tr = (Ended ''start'' None \<notin> set tr \<and> Began ''ready'' \<notin> set tr \<and> Sigterm \<notin> set tr)"
| "setup_ok RunsReady tr = (Ended ''start'' None \<in> set tr \<and> Sigterm \<notin> set tr)"
| "setup_ok (SetupSent r) tr =
     (Sigterm \<notin> set tr \<and> (r = None \<longrightarrow> Ended ''start'' None \<in> set tr \<and> Ended ''ready'' None \<in> set tr))"
| "setup_ok SetupReceived tr = True"

definition wf_inv :: "Trigger list \<Rightarrow> wf \<Rightarrow> bool" where
  "wf_inv loaded s \<longleftrightarrow> setup_ok (setup_goroutine s) (trace s) \<and>
     (Began ''ready'' \<in> set (trace s) \<longrightarrow> Ended ''start'' None \<in> set (trace s)) \<and>
     (Sigterm \<in> set (trace s) \<longrightarrow> Ended ''start'' None \<in> set (trace s) \<and> Ended ''ready'' None \<in> set (trace s)) \<and>
     length (filter (\<lambda>ev. ev = Sigterm) (trace s)) \<le> 1 \<and>
     (\<forall>mo r. Ended mo r \<in> set (trace s) \<longrightarrow> run_ends loaded mo r) \<and>
     (\<forall>sig. ch s = Some sig \<or> loop s = RunsSignal sig \<longrightarrow> sig \<in> set workflow_signals)"

lemma signal_names: "sig \<in> set workflow_signals \<Longrightarrow> sig \<noteq> ''start'' \<and> sig \<noteq> ''ready''"
  by (auto simp: workflow_signals_def)

lemma no_sigterm: "Sigterm \<notin> set tr \<Longrightarrow> filter (\<lambda>ev. ev = Sigterm) tr = []"
  by (auto simp: filter_empty_conv)

lemma wf_step_inv: "wf_step loaded s s' \<Longrightarrow> wf_inv loaded s \<Longrightarrow> wf_inv loaded s'"
proof (induction rule: wf_step.induct)
  case (signal_arrives sig s)
  then show ?case by (auto simp: wf_inv_def notified_def split: option.splits)
next
  case (sees_signal s sig)
  then have "sig \<noteq> ''start'' \<and> sig \<noteq> ''ready''" using signal_names by (auto simp: wf_inv_def)
  with sees_signal show ?case by (cases "setup_goroutine s") (auto simp: wf_inv_def)
next
  case (signal_ends s sig)
  then have "sig \<noteq> ''start'' \<and> sig \<noteq> ''ready''" using signal_names by (auto simp: wf_inv_def)
  with signal_ends show ?case by (cases "setup_goroutine s") (auto simp: wf_inv_def)
next
  case (signal_fails s sig e)
  then show ?case by (cases "setup_goroutine s") (auto simp: wf_inv_def)
next
  case (sees_setup s)
  then show ?case by (auto simp: wf_inv_def no_sigterm)
qed (auto simp: wf_inv_def)

lemma wf_init_inv: "wf_init s \<Longrightarrow> wf_inv loaded s"
  by (simp add: wf_init_def wf_inv_def)

interpretation wf: invariant_of wf_init "wf_step loaded" "wf_inv loaded" for loaded
  by unfold_locales (auto intro: wf_step_inv wf_init_inv)

lemma no_steps_no_failure: "at_moment mo loaded = [] \<Longrightarrow> run_ends loaded mo r \<Longrightarrow> r = None"
proof -
  assume "at_moment mo loaded = []" "run_ends loaded mo r"
  then obtain e s s' where "workflow_Run e loaded mo s = (r, s')" and none: "at_moment mo loaded = []"
    by (auto simp: run_ends_def)
  moreover obtain out s1 where "run_triggers mo loaded [] s = (out, s1)" by (rule prod.exhaust)
  moreover from run_triggers_ran [OF this] have "\<not> (\<exists>err. out = StepFailed err)"
    by (auto simp: ran_def none)
  ultimately show ?thesis by (auto simp: workflow_Run_def split: progress.splits)
qed

lemma run_ends_empty: "run_ends [] mo None"
  by (auto simp: run_ends_def workflow_Run_def)

section \<open>Documents and runs to witness the properties with\<close>

definition demo_step :: "int \<Rightarrow> Step" where
  "demo_step status = \<lparr>Name = ''s'', Ref = [], Action = ''a'', Params = Map.empty,
     run = (\<lambda>ps s. ((status, JNull, []), s))\<rparr>"

definition idle_sys :: sys where
  "idle_sys = \<lparr>tasks = empty_world, pausing = {}, disk = Map.empty, tick = 0\<rparr>"

abbreviation wf_at :: "setup_pc \<Rightarrow> loop_pc \<Rightarrow> bool \<Rightarrow> wf_event list \<Rightarrow> wf" where
  "wf_at g l d tr \<equiv> \<lparr>setup_goroutine = g, loop = l, ch = None, ctx_done = d, trace = tr\<rparr>"

lemma wf_more: "reach wf_init (wf_step loaded) s \<Longrightarrow> wf_step loaded s s' \<Longrightarrow> reach wf_init (wf_step loaded) s'"
  by (rule reach_step)

lemma demo_wf_init: "reach wf_init (wf_step []) (wf_at RunsStart Selecting False [Began ''start''])"
  by (rule reach_init) (simp add: wf_init_def)

lemma demo_wf_ended:
  "reach wf_init (wf_step []) (wf_at SetupReceived Selecting False
     [Began ''start'', Ended ''start'' None, Began ''ready'', Ended ''ready'' None, Sigterm])"
proof -
  have s1: "wf_step [] (wf_at RunsStart Selecting False [Began ''start''])
      (wf_at RunsReady Selecting False [Began ''start'', Ended ''start'' None, Began ''ready''])"
    using start_ends [of "wf_at RunsStart Selecting False [Began ''start'']" "[]", OF _ run_ends_empty] by simp
  have s2: "wf_step [] (wf_at RunsReady Selecting False [Began ''start'', Ended ''start'' None, Began ''ready''])
      (wf_at (SetupSent None) Selecting False [Began ''start'', Ended ''start'' None, Began ''ready'', Ended ''ready'' None])"
    using ready_ends [of "wf_at RunsReady Selecting False [Began ''start'', Ended ''start'' None, Began ''ready'']" "[]" None, OF _ run_ends_empty]
    by simp
  have s3: "wf_step []
      (wf_at (SetupSent None) Selecting False [Began ''start'', Ended ''start'' None, Began ''ready'', Ended ''ready'' None])
      (wf_at SetupReceived Selecting False
        [Began ''start'', Ended ''start'' None, Began ''ready'', Ended ''ready'' None, Sigterm])"
    using sees_setup [of "wf_at (SetupSent None) Selecting False
      [Began ''start'', Ended ''start'' None, Began ''ready'', Ended ''ready'' None]" "[]"] by simp
  show ?thesis by (rule wf_more [OF wf_more [OF wf_more [OF demo_wf_init s1] s2] s3])
qed

section \<open>Properties\<close>

text \<open>C20: a run takes the steps of its moment in the document's order and stops at the first that
  fails or that was paused. \<^verbatim>\<open>Run\<close> errs exactly when the last step it ran answered outside 2xx;
  otherwise it ran them all, or the last one answered 202; every step before the last answered
  2xx, and only then it waits, for every id a step answered with, in order.\<close>

theorem Run_stops_at_the_first_failure:
  assumes "workflow_Run e loaded mo s = (err, s')"
  shows "\<exists>n as s1. n \<le> length (at_moment mo loaded) \<and>
    run_all (take n (at_moment mo loaded)) s = (as, s1) \<and> list_all went_on (butlast as) \<and>
    (case err of
       Some msg \<Rightarrow> as \<noteq> [] \<and> failed (last as) \<and> s' = s1
     | None \<Rightarrow> (n = length (at_moment mo loaded) \<and> list_all went_on as \<or> as \<noteq> [] \<and> fst (last as) = 202) \<and>
         s' = wait_each e (ids_of as) s1)"
proof -
  obtain out s1 where r: "run_triggers mo loaded [] s = (out, s1)" by (rule prod.exhaust)
  from run_triggers_ran [OF r] obtain n as where n: "n \<le> length (at_moment mo loaded)"
    "run_all (take n (at_moment mo loaded)) s = (as, s1)" "list_all went_on (butlast as)"
    and out: "case out of
        Continued ids \<Rightarrow> n = length (at_moment mo loaded) \<and> list_all went_on as \<and> ids = [] @ ids_of as
      | Broke ids \<Rightarrow> as \<noteq> [] \<and> fst (last as) = 202 \<and> ids = [] @ ids_of as
      | StepFailed err \<Rightarrow> as \<noteq> [] \<and> failed (last as)"
    unfolding ran_def by blast
  from assms r n out show ?thesis
    by (intro exI [of _ n] exI [of _ as] exI [of _ s1])
       (auto simp: workflow_Run_def split: progress.splits)
qed

theorem Run_stops_at_the_first_failure_witness:
  "\<exists>msg n. workflow_Run (quiet_env None) [\<lparr>moment = ''start'', steps = [demo_step 200, demo_step 404, demo_step 200]\<rparr>]
       ''start'' idle_sys = (Some msg, idle_sys) \<and> n \<le> 3 \<and>
     run_all (take n [demo_step 200, demo_step 404, demo_step 200]) idle_sys =
       ([(200, JNull, []), (404, JNull, [])], idle_sys)"
proof -
  let ?steps = "[demo_step 200, demo_step 404, demo_step 200]"
  let ?loaded = "[\<lparr>moment = ''start'', steps = ?steps\<rparr>]"
  have all: "at_moment ''start'' ?loaded = ?steps" by (simp add: at_moment_def)
  have len: "length ?steps = 3" by simp
  obtain err s' where r: "workflow_Run (quiet_env None) ?loaded ''start'' idle_sys = (err, s')" by (rule prod.exhaust)
  then obtain msg where err: "err = Some msg" and s': "s' = idle_sys"
    by (auto simp: workflow_Run_def demo_step_def created_id_def)
  from Run_stops_at_the_first_failure [OF r] obtain n as where n: "n \<le> 3"
    "run_all (take n ?steps) idle_sys = (as, idle_sys)" "as \<noteq> []" "failed (last as)" "list_all went_on (butlast as)"
    unfolding all err s' option.case len by blast
  from n(1) have "n = 0 \<or> n = 1 \<or> n = 2 \<or> n = 3" by linarith
  with n(2-) have "as = [(200, JNull, []), (404, JNull, [])]"
    by (elim disjE) (auto simp: demo_step_def failed_def went_on_def numeral_2_eq_2 numeral_3_eq_3)
  with n r err s' show ?thesis by blast
qed

text \<open>C22: the job is ended at most once, and only when the start steps and the ready steps have both
  ended without error; the ready steps begin only after the start steps; and no signal's steps are
  running at the moment the job is ended. Each end is one that \<^verbatim>\<open>Run\<close> of that moment can have, and only
  a moment with steps can fail.\<close>

theorem job_ends_after_start_and_ready:
  assumes "reach wf_init (wf_step loaded) s"
  shows "length (filter (\<lambda>ev. ev = Sigterm) (trace s)) \<le> 1 \<and>
    (Sigterm \<in> set (trace s) \<longrightarrow> Ended ''start'' None \<in> set (trace s) \<and> Ended ''ready'' None \<in> set (trace s)) \<and>
    (Began ''ready'' \<in> set (trace s) \<longrightarrow> Ended ''start'' None \<in> set (trace s)) \<and>
    (\<forall>s'. wf_step loaded s s' \<and> Sigterm \<notin> set (trace s) \<and> Sigterm \<in> set (trace s') \<longrightarrow> loop s = Selecting) \<and>
    (\<forall>mo r. Ended mo r \<in> set (trace s) \<longrightarrow> run_ends loaded mo r \<and> (r \<noteq> None \<longrightarrow> at_moment mo loaded \<noteq> []))"
proof (intro conjI allI impI)
  note inv = wf.reachable_inv [OF assms]
  show "length (filter (\<lambda>ev. ev = Sigterm) (trace s)) \<le> 1"
    and "Sigterm \<in> set (trace s) \<Longrightarrow> Ended ''start'' None \<in> set (trace s)"
    and "Sigterm \<in> set (trace s) \<Longrightarrow> Ended ''ready'' None \<in> set (trace s)"
    and "Began ''ready'' \<in> set (trace s) \<Longrightarrow> Ended ''start'' None \<in> set (trace s)"
    using inv by (simp_all add: wf_inv_def)
  show "run_ends loaded mo r" if "Ended mo r \<in> set (trace s)" for mo r
    using inv that by (simp add: wf_inv_def)
  then show "at_moment mo loaded \<noteq> []" if "Ended mo r \<in> set (trace s)" "r \<noteq> None" for mo r
    using no_steps_no_failure that by blast
  fix s'
  assume "wf_step loaded s s' \<and> Sigterm \<notin> set (trace s) \<and> Sigterm \<in> set (trace s')"
  then have "wf_step loaded s s'" "Sigterm \<notin> set (trace s)" "Sigterm \<in> set (trace s')" by simp_all
  then show "loop s = Selecting" by (cases rule: wf_step.cases) auto
qed

theorem job_ends_after_start_and_ready_witness:
  "\<exists>s. reach wf_init (wf_step []) s \<and> Sigterm \<in> set (trace s) \<and>
     length (filter (\<lambda>ev. ev = Sigterm) (trace s)) \<le> 1 \<and>
     Ended ''start'' None \<in> set (trace s) \<and> Ended ''ready'' None \<in> set (trace s)"
  using job_ends_after_start_and_ready [OF demo_wf_ended] demo_wf_ended
  by (intro exI conjI) (assumption | simp)+

text \<open>The task can end while its steps go on. Cancelling its context makes the loop return, which is
  what \<^verbatim>\<open>StopAll\<close> waits for, but the goroutine that runs the start and ready steps is not waited
  for and goes on to begin the ready steps.\<close>

theorem steps_begin_after_the_task_returned:
  "\<exists>s s'. reach wf_init (wf_step []) s \<and> loop s = Returned None \<and> Began ''ready'' \<notin> set (trace s) \<and>
     wf_step [] s s' \<and> Began ''ready'' \<in> set (trace s')"
proof -
  let ?s = "wf_at RunsStart (Returned None) True [Began ''start'']"
  have s1: "wf_step [] (wf_at RunsStart Selecting False [Began ''start''])
      (wf_at RunsStart Selecting True [Began ''start''])"
    using cancelled [of "[]" "wf_at RunsStart Selecting False [Began ''start'']"] by simp
  have s2: "wf_step [] (wf_at RunsStart Selecting True [Began ''start'']) ?s"
    using sees_done [of "wf_at RunsStart Selecting True [Began ''start'']" "[]"] by simp
  have "reach wf_init (wf_step []) ?s"
    by (rule wf_more [OF wf_more [OF demo_wf_init s1] s2])
  moreover have "wf_step [] ?s (?s\<lparr>setup_goroutine := RunsReady,
      trace := trace ?s @ [Ended ''start'' None, Began ''ready'']\<rparr>)"
    by (rule start_ends) (simp_all add: run_ends_empty)
  ultimately show ?thesis by (intro exI conjI) auto
qed

definition valid_document :: "(string \<times> sys action) list \<Rightarrow> trigger_doc list \<Rightarrow> bool" where
  "valid_document actions doc \<longleftrightarrow> doc \<noteq> [] \<and>
     list_all (\<lambda>t. known_moment (cmp_or [] (On t) ''start'') \<and> Steps t \<noteq> [] \<and>
       list_all (\<lambda>d. map_of actions (Action d) \<noteq> None) (Steps t)) doc"

definition bound :: "(string \<times> sys action) list \<Rightarrow> trigger_doc \<Rightarrow> Trigger \<Rightarrow> bool" where
  "bound actions t tr \<longleftrightarrow> moment tr = cmp_or [] (On t) ''start'' \<and>
     list_all2 (\<lambda>d st. Some (run st) = map_of actions (Action d) \<and> Action st = Action d \<and> Name st = Name d \<and>
       (Ref d \<noteq> [] \<longrightarrow> Str (Params st) ''ref'' = Ref d) \<and>
       (\<forall>key. key \<noteq> ''ref'' \<or> Ref d = [] \<longrightarrow> Params st key = Params d key)) (Steps t) (steps tr)"

lemma load_steps_Inr:
  "load_steps i actions ds = Inr sts \<longleftrightarrow>
     list_all2 (\<lambda>d st. \<exists>a. map_of actions (Action d) = Some a \<and> st = bind_step d a) ds sts"
  by (induction i actions ds arbitrary: sts rule: load_steps.induct)
     (auto simp: list_all2_Cons1 split: option.splits sum.splits)

lemma load_steps_ok: "(\<exists>sts. load_steps i actions ds = Inr sts) \<longleftrightarrow> list_all (\<lambda>d. map_of actions (Action d) \<noteq> None) ds"
  by (induction i actions ds rule: load_steps.induct) (auto split: option.splits sum.splits)

lemma load_triggers_ok:
  "(\<exists>all. load_triggers i actions ts = Inr all) \<longleftrightarrow>
     list_all (\<lambda>t. known_moment (cmp_or [] (On t) ''start'') \<and> Steps t \<noteq> [] \<and>
       list_all (\<lambda>d. map_of actions (Action d) \<noteq> None) (Steps t)) ts"
proof (induction i actions ts rule: load_triggers.induct)
  case (2 i actions t ts)
  note ok = load_steps_ok [of i actions "Steps t"]
  show ?case
  proof (cases "known_moment (cmp_or [] (On t) ''start'') \<and> Steps t \<noteq> [] \<and> (\<exists>sts. load_steps i actions (Steps t) = Inr sts)")
    case True
    then obtain sts where t: "known_moment (cmp_or [] (On t) ''start'')" "Steps t \<noteq> []"
      "load_steps i actions (Steps t) = Inr sts" by blast
    have "(\<exists>all. load_triggers i actions (t # ts) = Inr all) \<longleftrightarrow> (\<exists>all. load_triggers (Suc i) actions ts = Inr all)"
      using t by (auto simp: Let_def split: sum.splits)
    also have "\<dots> \<longleftrightarrow> list_all (\<lambda>t. known_moment (cmp_or [] (On t) ''start'') \<and> Steps t \<noteq> [] \<and>
       list_all (\<lambda>d. map_of actions (Action d) \<noteq> None) (Steps t)) ts"
      using 2 t by blast
    finally show ?thesis using True ok by simp
  next
    case False
    with ok show ?thesis by (auto simp: Let_def split: sum.splits)
  qed
qed simp

lemma bind_step_bound:
  "map_of actions (Action d) = Some a \<Longrightarrow> Some (run (bind_step d a)) = map_of actions (Action d) \<and>
     Action (bind_step d a) = Action d \<and> Name (bind_step d a) = Name d \<and>
     (Ref d \<noteq> [] \<longrightarrow> Str (Params (bind_step d a)) ''ref'' = Ref d) \<and>
     (\<forall>key. key \<noteq> ''ref'' \<or> Ref d = [] \<longrightarrow> Params (bind_step d a) key = Params d key)"
  by (auto simp: bind_step_def step_params_def)

lemma load_triggers_bound: "load_triggers i actions ts = Inr all \<Longrightarrow> list_all2 (bound actions) ts all"
proof (induction i actions ts arbitrary: all rule: load_triggers.induct)
  case (2 i actions t ts)
  from "2.prems" obtain sts rest where sts: "load_steps i actions (Steps t) = Inr sts"
    and rest: "load_triggers (Suc i) actions ts = Inr rest"
    and all: "all = \<lparr>moment = cmp_or [] (On t) ''start'', steps = sts\<rparr> # rest"
    and ok: "known_moment (cmp_or [] (On t) ''start'')" "Steps t \<noteq> []"
    by (auto simp: Let_def split: if_splits sum.splits)
  have "list_all2 (bound actions) ts rest"
    using 2(1) [OF refl] ok sts rest by simp
  moreover have "bound actions t \<lparr>moment = cmp_or [] (On t) ''start'', steps = sts\<rparr>"
    using sts unfolding load_steps_Inr bound_def
    by (auto elim!: list_all2_mono dest: bind_step_bound)
  ultimately show ?case by (simp add: all)
qed simp

text \<open>C23: what \<^verbatim>\<open>Load\<close> accepts. A document that reads and parses is accepted exactly when it has a
  trigger, every trigger's moment is one Linkspan knows and has a step, and every step's action is
  offered; then every step keeps its place and runs the action of its name, with its ref among its
  params.\<close>

theorem Load_accepts_valid_documents:
  assumes "read_file path = Inr data" and "parse_yaml data = Inr doc"
  shows "((\<exists>all. Load read_file parse_yaml path actions = Inr all) \<longleftrightarrow> valid_document actions doc) \<and>
    (\<forall>all. Load read_file parse_yaml path actions = Inr all \<longrightarrow> list_all2 (bound actions) doc all)"
  using load_triggers_ok [of 0 actions doc] load_triggers_bound [of 0 actions doc]
  by (auto simp: Load_def assms valid_document_def)

theorem Load_accepts_valid_documents_witness:
  "\<exists>all. Load (\<lambda>_. Inr ''doc'') (\<lambda>_. Inr [\<lparr>On = [], Steps = [\<lparr>Name = [], Ref = ''j'', Action = ''a'', Params = Map.empty\<rparr>]\<rparr>])
     ''wf.yaml'' [(''a'', \<lambda>ps s. ((200, JNull, []), s))] = Inr all"
proof -
  let ?doc = "[\<lparr>On = [], Steps = [\<lparr>Name = [], Ref = ''j'', Action = ''a'', Params = Map.empty\<rparr>]\<rparr>]"
  let ?actions = "[(''a'', \<lambda>ps s. ((200, JNull, []), s))] :: (string \<times> sys action) list"
  have "valid_document ?actions ?doc" by (simp add: valid_document_def known_moment_def)
  with Load_accepts_valid_documents [of "\<lambda>_. Inr ''doc''" "''wf.yaml''" "''doc''" "\<lambda>_. Inr ?doc" ?doc ?actions]
  show ?thesis by blast
qed

end
