(* ===== verification/Forward.thy ===== *)
theory Forward
  imports System
begin

text \<open>
  \<^verbatim>\<open>internal/forward/forward.go\<close>: a connection to a port a running task serves, and the two loops
  that join it to a WebSocket.
\<close>

section \<open>Dialling\<close>

text \<open>
  A connection is the address it was made to. Whether an address can be connected to, and
  whether a request can be upgraded, comes from outside.
\<close>

definition Dial :: "env \<Rightarrow> (nat \<Rightarrow> string \<Rightarrow> bool) \<Rightarrow> int \<Rightarrow> sys \<Rightarrow> string option \<times> sys" where
  "Dial e connects port s =
     (let (serving, s) = tasks_IsServing e port s in
      if \<not> serving then (None, s) else
      let s = turn e s; addr = join_host_port ''127.0.0.1'' (itoa port)
      in (if connects (tick s) addr then Some addr else None, s))"

datatype stream_end = NotFound http_response | NotUpgraded string | Piped string

definition Stream :: "env \<Rightarrow> (nat \<Rightarrow> string \<Rightarrow> bool) \<Rightarrow> (nat \<Rightarrow> bool) \<Rightarrow> string \<Rightarrow> sys \<Rightarrow> stream_end \<times> sys" where
  "Stream e connects upgrades value s =
     (let (server, s) = Dial e connects (fst (atoi value)) s in
      case server of
        None \<Rightarrow> (NotFound (Error_response 404 ''no running server on that port''), s)
      | Some addr \<Rightarrow> let s = turn e s in (if upgrades (tick s) then Piped addr else NotUpgraded addr, s))"

section \<open>The two loops\<close>

text \<open>
  \<^verbatim>\<open>Pipe\<close>: the download loop reads the server and writes frames, the upload loop reads messages
  and writes them to the server. Each closes the side it writes to when it ends. A peer sends
  while its side is open; \<open>client_unread\<close> and \<open>server_unread\<close> are what it sent and no loop has
  read. A read of a closed server fails; messages that came before the close may still be read.
  \<open>Writing b fin\<close> is a loop that has read \<open>b\<close>, and an error with it if \<open>fin\<close>.
\<close>

datatype loop = Reading | Writing string bool | Ended

record pipe =
  client_sent :: "string list"
  client_unread :: "string list"
  server_sent :: string
  server_unread :: string
  to_server :: "string list"
  to_client :: "string list"
  client_open :: bool
  server_open :: bool
  upload :: loop
  download :: loop

definition frame_limit :: nat where
  "frame_limit = 32 * 2 ^ 10"

definition pipe_start :: "pipe \<Rightarrow> bool" where
  "pipe_start s \<longleftrightarrow> s = \<lparr>client_sent = [], client_unread = [], server_sent = [], server_unread = [],
     to_server = [], to_client = [], client_open = True, server_open = True,
     upload = Reading, download = Reading\<rparr>"

definition end_download :: "pipe \<Rightarrow> pipe" where
  "end_download s = s\<lparr>download := Ended, client_open := False\<rparr>"

definition end_upload :: "pipe \<Rightarrow> pipe" where
  "end_upload s = s\<lparr>upload := Ended, server_open := False\<rparr>"

inductive loop_step :: "pipe \<Rightarrow> pipe \<Rightarrow> bool" where
  server_read: "loop_step s (s\<lparr>download := Writing (take n (server_unread s)) fin,
      server_unread := drop n (server_unread s)\<rparr>)"
    if "download s = Reading" and "server_open s" and "0 < n" and "n \<le> frame_limit"
      and "n \<le> length (server_unread s)"
| server_fails: "loop_step s (end_download s)" if "download s = Reading"
| frame_written: "loop_step s (let s = s\<lparr>to_client := to_client s @ [b]\<rparr>
      in if fin then end_download s else s\<lparr>download := Reading\<rparr>)"
    if "download s = Writing b fin" and "client_open s"
| frame_fails: "loop_step s (end_download s)" if "download s = Writing b fin"
| message_read: "loop_step s (s\<lparr>upload := Writing m False, client_unread := ms\<rparr>)"
    if "upload s = Reading" and "client_unread s = m # ms"
| client_fails: "loop_step s (end_upload s)" if "upload s = Reading"
| message_written: "loop_step s (s\<lparr>to_server := to_server s @ [m], upload := Reading\<rparr>)"
    if "upload s = Writing m fin" and "server_open s"
| message_fails: "loop_step s (end_upload (s\<lparr>to_server := to_server s @ [take k m]\<rparr>))"
    if "upload s = Writing m fin"

inductive peer_step :: "pipe \<Rightarrow> pipe \<Rightarrow> bool" where
  client_sends: "peer_step s (s\<lparr>client_sent := client_sent s @ [m], client_unread := client_unread s @ [m]\<rparr>)"
    if "client_open s"
| server_sends: "peer_step s (s\<lparr>server_sent := server_sent s @ b, server_unread := server_unread s @ b\<rparr>)"
    if "server_open s"

definition pipe_step :: "pipe \<Rightarrow> pipe \<Rightarrow> bool" where
  "pipe_step s t \<longleftrightarrow> loop_step s t \<or> peer_step s t"

inductive_cases loop_stepE: "loop_step s t"
inductive_cases peer_stepE: "peer_step s t"

section \<open>The invariant\<close>

fun held_bytes :: "loop \<Rightarrow> string list" where
  "held_bytes (Writing b fin) = [b]"
| "held_bytes _ = []"

definition download_ok :: "pipe \<Rightarrow> bool" where
  "download_ok s \<longleftrightarrow>
     (\<forall>b\<in>set (to_client s) \<union> set (held_bytes (download s)). b \<noteq> [] \<and> length b \<le> frame_limit) \<and>
     (\<exists>lost. server_sent s = concat (to_client s) @ concat (held_bytes (download s)) @ lost @ server_unread s \<and>
       (download s \<noteq> Ended \<longrightarrow> lost = [])) \<and>
     (client_open s \<longleftrightarrow> download s \<noteq> Ended)"

definition upload_ok :: "pipe \<Rightarrow> bool" where
  "upload_ok s \<longleftrightarrow>
     (\<exists>lost. concat (client_sent s) = concat (to_server s) @ lost @ concat (client_unread s)) \<and>
     (upload s \<noteq> Ended \<longrightarrow> client_sent s = to_server s @ held_bytes (upload s) @ client_unread s) \<and>
     (server_open s \<longleftrightarrow> upload s \<noteq> Ended)"

definition pipe_ok :: "pipe \<Rightarrow> bool" where
  "pipe_ok s \<longleftrightarrow> download_ok s \<and> upload_ok s"

lemma loop_step_download_ok: "loop_step s t \<Longrightarrow> download_ok s \<Longrightarrow> download_ok t"
proof (erule loop_stepE)
  fix n fin
  assume *: "t = s\<lparr>download := Writing (take n (server_unread s)) fin, server_unread := drop n (server_unread s)\<rparr>"
    "download s = Reading" "server_open s" "0 < n" "n \<le> frame_limit" "n \<le> length (server_unread s)"
    and ok: "download_ok s"
  then have "server_unread s \<noteq> []" by auto
  with * ok show "download_ok t" by (auto simp: download_ok_def)
qed (auto simp: download_ok_def end_download_def end_upload_def Let_def)

lemma loop_step_upload_ok: "loop_step s t \<Longrightarrow> upload_ok s \<Longrightarrow> upload_ok t"
proof (erule loop_stepE)
  fix m fin k
  assume *: "t = end_upload (s\<lparr>to_server := to_server s @ [take k m]\<rparr>)" "upload s = Writing m fin"
    and ok: "upload_ok s"
  then have "concat (client_sent s) = concat (to_server s) @ m @ concat (client_unread s)"
    by (auto simp: upload_ok_def)
  moreover have "m = take k m @ drop k m" by simp
  ultimately have "concat (client_sent s) = concat (to_server s @ [take k m]) @ drop k m @ concat (client_unread s)"
    by (metis append.assoc concat.simps concat_append append_Nil2)
  with * show "upload_ok t" by (auto simp: upload_ok_def end_upload_def)
qed (auto simp: upload_ok_def end_download_def end_upload_def Let_def)

lemma peer_step_download_ok: "peer_step s t \<Longrightarrow> download_ok s \<Longrightarrow> download_ok t"
  by (erule peer_stepE) (auto simp: download_ok_def)

lemma peer_step_upload_ok: "peer_step s t \<Longrightarrow> upload_ok s \<Longrightarrow> upload_ok t"
  by (erule peer_stepE) (auto simp: upload_ok_def)

lemmas pipe_step_keeps =
  loop_step_download_ok loop_step_upload_ok peer_step_download_ok peer_step_upload_ok

lemma pipe_step_ok: "pipe_ok s \<Longrightarrow> pipe_step s t \<Longrightarrow> pipe_ok t"
  unfolding pipe_step_def pipe_ok_def using pipe_step_keeps by blast

lemma pipe_start_ok: "pipe_start s \<Longrightarrow> pipe_ok s"
  by (simp add: pipe_start_def pipe_ok_def download_ok_def upload_ok_def)

interpretation pipe_invariant: invariant_of pipe_start pipe_step pipe_ok
  by unfold_locales (fact pipe_start_ok, fact pipe_step_ok)

section \<open>Lemmas\<close>

lemma join_host_port_loopback: "join_host_port ''127.0.0.1'' (itoa port) = loopback port"
  by (simp add: join_host_port_def loopback_def)

lemma Dial_opens: "Dial e connects port s = (Some addr, s') \<Longrightarrow> IsServing port (tasks (others e s)) \<and> addr = loopback port"
  by (auto simp: Dial_def tasks_IsServing_def join_host_port_loopback Let_def split: if_splits)

lemma Dial_refuses: "\<not> IsServing port (tasks (others e s)) \<Longrightarrow> Dial e connects port s = (None, turn e s)"
  by (simp add: Dial_def tasks_IsServing_def Let_def)

lemma Dial_keeps_tasks:
  "(\<And>s. tasks (others e s) = tasks s) \<Longrightarrow> tasks (snd (Dial e connects port s)) = tasks s"
  by (simp add: Dial_def tasks_IsServing_def Let_def)

text \<open>What is left of a pipe one of whose loops has ended: each read of the other loop, and each write.\<close>

fun loop_left :: "loop \<Rightarrow> nat \<Rightarrow> nat" where
  "loop_left Ended n = 0"
| "loop_left Reading n = 1 + 2 * n"
| "loop_left (Writing b fin) n = 2 + 2 * n"

definition still_open :: "pipe \<Rightarrow> nat" where
  "still_open s = (if upload s = Ended then loop_left (download s) 0
     else loop_left (upload s) (length (client_unread s)))"

lemma loop_left_0 [simp]: "loop_left l n = 0 \<longleftrightarrow> l = Ended"
  by (cases l) auto

lemma loop_left_write: "l \<noteq> Ended \<Longrightarrow> 0 < loop_left l n"
  by (cases l) auto

lemma loop_step_enabled:
  assumes "download s \<noteq> Ended \<or> upload s \<noteq> Ended"
  shows "\<exists>t. loop_step s t"
proof -
  have "\<exists>t. loop_step s t" if "download s \<noteq> Ended"
    using that server_fails frame_fails by (cases "download s") blast+
  moreover have "\<exists>t. loop_step s t" if "upload s \<noteq> Ended"
    using that client_fails message_fails by (cases "upload s") blast+
  ultimately show ?thesis using assms by blast
qed

lemma loop_step_decreases:
  assumes "pipe_ok s" and "loop_step s t" and "upload s = Ended \<or> download s = Ended"
  shows "still_open t < still_open s"
proof -
  have "server_open s \<longleftrightarrow> upload s \<noteq> Ended"
    using assms(1) by (simp add: pipe_ok_def upload_ok_def)
  with assms(2,3) show ?thesis
    by (elim loop_stepE) (auto simp: still_open_def end_download_def end_upload_def Let_def loop_left_write)
qed

lemma peer_step_keeps_left:
  assumes "pipe_ok s" and "peer_step s t" and "upload s = Ended \<or> download s = Ended"
  shows "still_open t = still_open s"
proof -
  have "client_open s \<longleftrightarrow> download s \<noteq> Ended"
    using assms(1) by (simp add: pipe_ok_def download_ok_def)
  with assms(2,3) show ?thesis by (elim peer_stepE) (auto simp: still_open_def)
qed

section \<open>Properties\<close>

text \<open>C24: a stream reaches only a port that a running task serves when the request is looked at, and
  on loopback; for any other port, and for a path element that is no number, the request is
  answered 404.\<close>

theorem Stream_reaches_only_served_ports:
  "(\<not> IsServing (fst (atoi value)) (tasks (others e s)) \<longrightarrow>
      fst (Stream e connects upgrades value s) =
        NotFound (Error_response 404 ''no running server on that port'')) \<and>
   (\<forall>addr. fst (Stream e connects upgrades value s) \<in> {Piped addr, NotUpgraded addr} \<longrightarrow>
      addr = loopback (fst (atoi value)) \<and>
      (\<exists>t\<in>set (held (tasks (others e s))). State t = StateRunning \<and> Port t = fst (atoi value) \<and> Port t > 0))"
proof (intro conjI impI allI)
  assume "\<not> IsServing (fst (atoi value)) (tasks (others e s))"
  then show "fst (Stream e connects upgrades value s) =
      NotFound (Error_response 404 ''no running server on that port'')"
    by (simp add: Stream_def Dial_refuses)
next
  fix addr
  assume "fst (Stream e connects upgrades value s) \<in> {Piped addr, NotUpgraded addr}"
  then obtain s' where "Dial e connects (fst (atoi value)) s = (Some addr, s')"
    by (auto simp: Stream_def Let_def split: prod.splits option.splits if_splits)
  from Dial_opens [OF this] show "addr = loopback (fst (atoi value))"
    and "\<exists>t\<in>set (held (tasks (others e s))). State t = StateRunning \<and> Port t = fst (atoi value) \<and> Port t > 0"
    by (auto simp: IsServing_def list_ex_iff)
qed

text \<open>A registry with one server on port 8080.\<close>

definition serving_sys :: sys where
  "serving_sys = \<lparr>tasks = empty_world\<lparr>nextp := 1, reg := [(''h-8080'', 0)],
     cells := [0 \<mapsto> new_cell (zero_task\<lparr>ID := ''h-8080'', Kind := ''http'', Addr := loopback 8080,
       State := StateRunning, Work := ServerWork, has_ln := True\<rparr>)]\<rparr>,
     pausing = {}, disk = Map.empty, tick = 0\<rparr>"

lemma serving_8080: "IsServing 8080 (tasks serving_sys)"
  by (simp add: serving_sys_def IsServing_def held_def map_filter_def new_cell_def Port_loopback max_int64_def)

lemma Dial_serving_sys:
  "Dial (quiet_env r) (\<lambda>_ _. True) 8080 serving_sys =
     (Some (loopback 8080), turn (quiet_env r) (turn (quiet_env r) serving_sys))"
  by (simp add: Dial_def tasks_IsServing_def serving_8080 join_host_port_loopback Let_def)

theorem Stream_reaches_only_served_ports_witness:
  "fst (Stream (quiet_env None) (\<lambda>_ _. True) (\<lambda>_. True) ''8080'' serving_sys) = Piped (loopback 8080) \<and>
   (\<exists>t\<in>set (held (tasks serving_sys)). State t = StateRunning \<and> Port t = 8080)"
proof -
  have port: "fst (atoi ''8080'') = 8080" by code_simp
  have "fst (Stream (quiet_env None) (\<lambda>_ _. True) (\<lambda>_. True) ''8080'' serving_sys) = Piped (loopback 8080)"
    by (simp add: Stream_def port Dial_serving_sys Let_def)
  then show ?thesis
    using Stream_reaches_only_served_ports [of "''8080''" "quiet_env None" serving_sys "\<lambda>_ _. True" "\<lambda>_. True"]
    unfolding port by auto
qed

text \<open>C25: the two loops lose, add and reorder nothing: each side has got a prefix of what the other sent,
  all of it but what no loop has read yet while the loop goes on, the messages of the client one
  by one, and the bytes of the server in frames of 1 to 32K bytes.\<close>

theorem Pipe_carries_bytes_in_order:
  assumes "reach pipe_start pipe_step s"
  shows "(\<exists>rest. server_sent s = concat (to_client s) @ rest) \<and>
    (\<exists>rest. concat (client_sent s) = concat (to_server s) @ rest) \<and>
    (download s = Reading \<longrightarrow> server_sent s = concat (to_client s) @ server_unread s) \<and>
    (upload s = Reading \<longrightarrow> client_sent s = to_server s @ client_unread s) \<and>
    (\<forall>b\<in>set (to_client s). 1 \<le> length b \<and> length b \<le> 32768)"
proof -
  from pipe_invariant.reachable_inv [OF assms] have d: "download_ok s" and u: "upload_ok s"
    by (simp_all add: pipe_ok_def)
  have "1 \<le> length b \<and> length b \<le> 32768" if "b \<in> set (to_client s)" for b
    using d that by (auto simp: download_ok_def frame_limit_def Suc_le_eq)
  moreover have "\<exists>rest. server_sent s = concat (to_client s) @ rest"
    and "download s = Reading \<Longrightarrow> server_sent s = concat (to_client s) @ server_unread s"
    using d by (auto simp: download_ok_def)
  moreover have "\<exists>rest. concat (client_sent s) = concat (to_server s) @ rest"
    and "upload s = Reading \<Longrightarrow> client_sent s = to_server s @ client_unread s"
    using u by (auto simp: upload_ok_def)
  ultimately show ?thesis by blast
qed

text \<open>A run in which each side sends, and the client's side then fails.\<close>

lemma reach_pipe_loop: "reach pipe_start pipe_step s \<Longrightarrow> loop_step s t \<Longrightarrow> reach pipe_start pipe_step t"
  by (erule reach_step) (simp add: pipe_step_def)

lemma reach_pipe_peer: "reach pipe_start pipe_step s \<Longrightarrow> peer_step s t \<Longrightarrow> reach pipe_start pipe_step t"
  by (erule reach_step) (simp add: pipe_step_def)

definition demo_pipe :: pipe where
  "demo_pipe = \<lparr>client_sent = [], client_unread = [], server_sent = ''ok'', server_unread = [],
     to_server = [], to_client = [''ok''], client_open = True, server_open = True,
     upload = Reading, download = Reading\<rparr>"

lemma reach_demo_pipe: "reach pipe_start pipe_step demo_pipe"
proof -
  let ?s = "demo_pipe\<lparr>server_sent := [], to_client := []\<rparr>"
  have "reach pipe_start pipe_step ?s"
    by (rule reach_init) (simp add: pipe_start_def demo_pipe_def)
  then have "reach pipe_start pipe_step (?s\<lparr>server_sent := ''ok'', server_unread := ''ok''\<rparr>)"
    by (rule reach_pipe_peer) (use server_sends [of ?s "''ok''"] in \<open>simp add: demo_pipe_def\<close>)
  then have "reach pipe_start pipe_step (?s\<lparr>server_sent := ''ok'', download := Writing ''ok'' False\<rparr>)"
    by (rule reach_pipe_loop)
      (use server_read [of "?s\<lparr>server_sent := ''ok'', server_unread := ''ok''\<rparr>" 2 False] in
        \<open>simp add: demo_pipe_def frame_limit_def\<close>)
  then show ?thesis
    by (rule reach_pipe_loop)
      (use frame_written [of "?s\<lparr>server_sent := ''ok'', download := Writing ''ok'' False\<rparr>" "''ok''" False] in
        \<open>simp add: demo_pipe_def\<close>)
qed

theorem Pipe_carries_bytes_in_order_witness:
  "server_sent demo_pipe = concat (to_client demo_pipe) \<and> to_client demo_pipe = [''ok'']"
  using Pipe_carries_bytes_in_order [OF reach_demo_pipe] by (simp add: demo_pipe_def)

text \<open>C26: closing either side closes both: once a loop has ended, the other can go on only until it has
  read what came before, whatever the peers do, is never stuck, and when nothing is left both
  sides are closed.\<close>

theorem Pipe_closes_both:
  assumes "reach pipe_start pipe_step s" and "upload s = Ended \<or> download s = Ended"
  shows "(loop_step s t \<longrightarrow> still_open t < still_open s) \<and> (peer_step s t \<longrightarrow> still_open t = still_open s) \<and>
    (if still_open s = 0 then \<not> client_open s \<and> \<not> server_open s else \<exists>t. loop_step s t)"
proof -
  note ok = pipe_invariant.reachable_inv [OF assms(1)]
  have "if still_open s = 0 then \<not> client_open s \<and> \<not> server_open s else \<exists>t. loop_step s t"
    using ok assms(2) loop_step_enabled [of s]
    by (auto simp: still_open_def pipe_ok_def download_ok_def upload_ok_def)
  then show ?thesis
    using loop_step_decreases [OF ok _ assms(2)] peer_step_keeps_left [OF ok _ assms(2)] by blast
qed

theorem Pipe_closes_both_witness:
  "\<exists>t. reach pipe_start pipe_step (end_download demo_pipe) \<and> loop_step (end_download demo_pipe) t \<and>
     still_open t < still_open (end_download demo_pipe)"
proof -
  have r: "reach pipe_start pipe_step (end_download demo_pipe)"
    by (rule reach_pipe_loop [OF reach_demo_pipe], rule server_fails) (simp add: demo_pipe_def)
  have ended: "download (end_download demo_pipe) = Ended" by (simp add: end_download_def)
  have "still_open (end_download demo_pipe) \<noteq> 0"
    by (simp add: still_open_def end_download_def demo_pipe_def)
  with Pipe_closes_both [OF r disjI2 [OF ended]] obtain t where t: "loop_step (end_download demo_pipe) t" by auto
  with Pipe_closes_both [OF r disjI2 [OF ended], of t] r show ?thesis by blast
qed

end
