(* ===== verification/Flags.thy ===== *)
theory Flags
  imports Prelude
begin

text \<open>
  \<^verbatim>\<open>flag.FlagSet.Parse\<close>, as \<^verbatim>\<open>main.go\<close> and the transports use it: one or two dashes, a value
  behind \<^verbatim>\<open>=\<close> or in the next argument, a boolean flag's behind \<^verbatim>\<open>=\<close> only. The first argument that
  is not a flag, or a lone \<^verbatim>\<open>--\<close>, ends the flags. A value that does not parse, a flag that is not
  declared and \<^verbatim>\<open>-h\<close> end the parse with an error.
\<close>

datatype flag_kind = TextFlag | IntFlag | BoolFlag

datatype flag_value = TextValue string | IntValue int | BoolValue bool

type_synonym flag_spec = "(string \<times> flag_kind) list"
type_synonym flag_settings = "(string \<times> flag_value) list"

section \<open>Values\<close>

text \<open>\<^verbatim>\<open>strconv.ParseBool\<close>.\<close>

definition parse_bool :: "string \<Rightarrow> bool option" where
  "parse_bool s =
     (if s \<in> {''1'', ''t'', ''T'', ''TRUE'', ''true'', ''True''} then Some True
      else if s \<in> {''0'', ''f'', ''F'', ''FALSE'', ''false'', ''False''} then Some False
      else None)"

text \<open>
  \<^verbatim>\<open>strconv.ParseInt(s, 0, 64)\<close>: the prefix gives the base, and underscores may separate digits
  and follow the prefix.
\<close>

definition alnum_val :: "char \<Rightarrow> nat option" where
  "alnum_val c = (let n = (of_char c :: nat) in
     if is_digit c then Some (n - 48)
     else if 65 \<le> n \<and> n \<le> 90 then Some (n - 55)
     else if 97 \<le> n \<and> n \<le> 122 then Some (n - 87) else None)"

fun magnitude :: "nat \<Rightarrow> nat \<Rightarrow> string \<Rightarrow> nat option" where
  "magnitude base acc [] = Some acc"
| "magnitude base acc (c # cs) =
     (if c = CHR ''_'' then magnitude base acc cs
      else case alnum_val c of
          None \<Rightarrow> None
        | Some d \<Rightarrow> if d < base then magnitude base (acc * base + d) cs else None)"

datatype scanned = AtStart | AfterDigit | AfterUnderscore | AfterOther

fun underscores_ok :: "bool \<Rightarrow> scanned \<Rightarrow> string \<Rightarrow> bool" where
  "underscores_ok hex i [] = (i \<noteq> AfterUnderscore)"
| "underscores_ok hex i (c # cs) =
     (let n = (of_char c :: nat) in
      if is_digit c \<or> hex \<and> (65 \<le> n \<and> n \<le> 70 \<or> 97 \<le> n \<and> n \<le> 102) then underscores_ok hex AfterDigit cs
      else if c = CHR ''_'' then i = AfterDigit \<and> underscores_ok hex AfterUnderscore cs
      else i \<noteq> AfterUnderscore \<and> underscores_ok hex AfterOther cs)"

definition base_prefix :: "string \<Rightarrow> nat \<times> string \<times> scanned" where
  "base_prefix s =
     (if length s \<ge> 3 \<and> s ! 0 = CHR ''0'' \<and> s ! 1 \<in> {CHR ''b'', CHR ''B''} then (2, drop 2 s, AfterDigit)
      else if length s \<ge> 3 \<and> s ! 0 = CHR ''0'' \<and> s ! 1 \<in> {CHR ''o'', CHR ''O''} then (8, drop 2 s, AfterDigit)
      else if length s \<ge> 3 \<and> s ! 0 = CHR ''0'' \<and> s ! 1 \<in> {CHR ''x'', CHR ''X''} then (16, drop 2 s, AfterDigit)
      else if s \<noteq> [] \<and> s ! 0 = CHR ''0'' then (8, tl s, AfterDigit)
      else (10, s, AtStart))"

definition parse_int0 :: "string \<Rightarrow> int option" where
  "parse_int0 s =
     (let neg = has_prefix s ''-''; body = (if has_prefix s ''-'' \<or> has_prefix s ''+'' then tl s else s);
          (base, ds, i) = base_prefix body
      in if body = [] \<or> \<not> underscores_ok (base = 16) i ds then None
         else case magnitude base 0 ds of
             None \<Rightarrow> None
           | Some m \<Rightarrow>
               if neg then (if int m \<le> max_int64 + 1 then Some (- int m) else None)
               else (if int m \<le> max_int64 then Some (int m) else None))"

fun parse_value :: "flag_kind \<Rightarrow> string \<Rightarrow> flag_value option" where
  "parse_value TextFlag v = Some (TextValue v)"
| "parse_value IntFlag v = map_option IntValue (parse_int0 v)"
| "parse_value BoolFlag v = map_option BoolValue (parse_bool v)"

section \<open>Arguments\<close>

text \<open>An argument as a flag: \<^const>\<open>None\<close> when it is none, the name and the value when it is.\<close>

datatype flag_arg = NotFlag | Terminator | BadFlag | FlagArg string "string option"

definition split_name :: "string \<Rightarrow> string \<times> string option" where
  "split_name name = (case cut_at (CHR ''='') (tl name) of
       None \<Rightarrow> (name, None)
     | Some (rest, v) \<Rightarrow> (hd name # rest, Some v))"

definition flag_of :: "string \<Rightarrow> flag_arg" where
  "flag_of s =
     (if length s < 2 \<or> hd s \<noteq> CHR ''-'' then NotFlag
      else if s = ''--'' then Terminator
      else let name = (if s ! 1 = CHR ''-'' then drop 2 s else tl s) in
        if name = [] \<or> hd name = CHR ''-'' \<or> hd name = CHR ''='' then BadFlag
        else let (n, v) = split_name name in FlagArg n v)"

text \<open>The settings in the order they were given, and the arguments that are left.\<close>

function parse_flags :: "flag_spec \<Rightarrow> string list \<Rightarrow> (flag_settings \<times> string list) option" where
  "parse_flags spec [] = Some ([], [])"
| "parse_flags spec (s # args) =
     (case flag_of s of
        NotFlag \<Rightarrow> Some ([], s # args)
      | Terminator \<Rightarrow> Some ([], args)
      | BadFlag \<Rightarrow> None
      | FlagArg name given \<Rightarrow>
         (case map_of spec name of
            None \<Rightarrow> None
          | Some kind \<Rightarrow>
             (case (if given \<noteq> None then Some (the given, args)
                    else if kind = BoolFlag then Some (''true'', args)
                    else case args of [] \<Rightarrow> None | v # rest \<Rightarrow> Some (v, rest)) of
                None \<Rightarrow> None
              | Some (v, rest) \<Rightarrow>
                 (case parse_value kind v of
                    None \<Rightarrow> None
                  | Some val \<Rightarrow> map_option (\<lambda>(sets, left). ((name, val) # sets, left)) (parse_flags spec rest)))))"
  by pat_completeness auto
termination
  by (relation "measure (\<lambda>(spec, args). length args)") (auto split: if_splits list.splits)

text \<open>The last setting of a flag counts.\<close>

definition setting :: "flag_settings \<Rightarrow> string \<Rightarrow> flag_value option" where
  "setting sets name = map_of (rev sets) name"

definition text_setting :: "flag_settings \<Rightarrow> string \<Rightarrow> string" where
  "text_setting sets name = (case setting sets name of Some (TextValue v) \<Rightarrow> v | _ \<Rightarrow> [])"

end
