(* ===== verification/Devtunnel.thy ===== *)
theory Devtunnel
  imports Install Flags
begin

text \<open>
  \<^verbatim>\<open>internal/tunnel/devtunnel/devtunnel.go\<close>: the host process of a Dev Tunnel, the last 64KB of
  what it prints, and the arguments of the transport.
\<close>

section \<open>The contract of a transport\<close>

text \<open>
  A transport is started with the value of its flag and its token. It refuses an empty value,
  it reads the value by its fields only, and whether it accepts does not depend on the token.
\<close>

locale transport =
  fixes start :: "string \<Rightarrow> string \<Rightarrow> string + 'run"
  assumes refuses_nothing: "Fields args = [] \<Longrightarrow> \<exists>e. start args token = Inl e"
    and by_fields: "Fields args = Fields args' \<Longrightarrow> start args token = start args' token"
    and any_token: "start args token = Inr run \<Longrightarrow> \<exists>run'. start args token' = Inr run'"
begin

lemma accepted_has_fields: "start args token = Inr run \<Longrightarrow> Fields args \<noteq> []"
  using refuses_nothing [of args token] by fastforce

lemma error_any_token: "start args token = Inl e \<Longrightarrow> \<exists>e'. start args token' = Inl e'"
  using any_token [of args token' _ token] by (cases "start args token'") auto

end

section \<open>The flag of the transport\<close>

definition devtunnel_Env :: string where
  "devtunnel_Env = ''LINKSPAN_TUNNEL_HOST_TOKEN''"

definition devtunnel_Usage :: string where
  "devtunnel_Usage = ''devtunnel transport `args`: \"--id <Dev Tunnel id> --cluster <Dev Tunnels region>\"; host token in '' @
     devtunnel_Env"

section \<open>The output\<close>

definition output_limit :: nat where
  "output_limit = 64 * 2 ^ 10"

record output_buffer =
  kept_bytes :: string

definition Write :: "string \<Rightarrow> output_buffer \<Rightarrow> nat \<times> output_buffer" where
  "Write b out =
     (let out = out\<lparr>kept_bytes := kept_bytes out @ b\<rparr>; over = int (length (kept_bytes out)) - int output_limit
      in (length b, if over > 0 then out\<lparr>kept_bytes := drop (nat over) (kept_bytes out)\<rparr> else out))"

definition output_String :: "output_buffer \<Rightarrow> string" where
  "output_String out = kept_bytes out"

text \<open>A log that keeps a tail of what is written to it.\<close>

definition take_last :: "nat \<Rightarrow> 'a list \<Rightarrow> 'a list" where
  "take_last n xs = drop (length xs - n) xs"

lemma take_last_length: "length (take_last n xs) = min n (length xs)"
  by (simp add: take_last_def)

lemma take_last_all: "length xs \<le> n \<Longrightarrow> take_last n xs = xs"
  by (simp add: take_last_def)

lemma take_last_append: "take_last n (take_last n xs @ ys) = take_last n (xs @ ys)"
proof (cases "length xs \<le> n")
  case False
  then have "take_last n (take_last n xs @ ys) = drop (length ys) (drop (length xs - n) xs @ ys)"
    by (simp add: take_last_def)
  also have "\<dots> = drop (length xs + length ys - n) (xs @ ys)"
  proof -
    have "length xs - n + length ys = length xs + length ys - n" using False by simp
    then show ?thesis using False
      by (metis (no_types, lifting) diff_le_self drop_append drop_drop add.commute diff_is_0_eq drop_0)
  qed
  finally show ?thesis by (simp add: take_last_def)
qed (simp add: take_last_all)

locale bounded_log =
  fixes put :: "'a list \<Rightarrow> 's \<Rightarrow> 's" and content :: "'s \<Rightarrow> 'a list" and limit :: nat and empty :: 's
  assumes content_empty: "content empty = []"
    and content_write: "content (put b s) = take_last limit (content s @ b)"
begin

lemma content_writes:
  "content s = take_last limit seen \<Longrightarrow> content (fold put bs s) = take_last limit (seen @ concat bs)"
proof (induction bs arbitrary: s seen)
  case (Cons b bs)
  have "content (put b s) = take_last limit (seen @ b)"
    by (simp add: content_write Cons.prems take_last_append)
  from Cons.IH [OF this] show ?case by simp
qed simp

lemma content_all: "content (fold put bs empty) = take_last limit (concat bs)"
  using content_writes [of empty "[]" bs] by (simp add: content_empty take_last_def)

lemma content_bound: "length (content (fold put bs empty)) \<le> limit"
  by (simp add: content_all take_last_length)

end

interpretation host_output: bounded_log "\<lambda>b out. snd (Write b out)" output_String output_limit "\<lparr>kept_bytes = []\<rparr>"
proof unfold_locales
  fix b :: string and out :: output_buffer
  have "nat (int (length (kept_bytes out) + length b) - int output_limit) =
      length (kept_bytes out) + length b - output_limit" by arith
  then show "output_String (snd (Write b out)) = take_last output_limit (output_String out @ b)"
    by (simp add: Write_def output_String_def take_last_def Let_def)
qed (simp add: output_String_def)

section \<open>The host process\<close>

record Tunnel =
  tunnel_id :: string
  cluster :: string
  host_token :: string

definition devtunnel_assets :: "(string \<times> string) list" where
  "devtunnel_assets = [(''linux/amd64'', ''linux-x64''), (''linux/arm64'', ''linux-arm64''),
     (''darwin/amd64'', ''osx-x64''), (''darwin/arm64'', ''osx-arm64'')]"

definition cliBase :: string where
  "cliBase = ''https://tunnelsassetsprod.blob.core.windows.net/cli/''"

definition host_command :: "env \<Rightarrow> Tunnel \<Rightarrow> command" where
  "host_command e t = \<lparr>argv = [Bin e ''devtunnel'', ''host'', tunnel_id t @ ''.'' @ cluster t, ''--access-token'', host_token t],
     Dir = [], Env = []\<rparr>"

text \<open>\<open>printed\<close> is what the host process writes, write by write, standard error among it.\<close>

definition Host :: "env \<Rightarrow> (nat \<Rightarrow> string list) \<Rightarrow> Tunnel \<Rightarrow> sys \<Rightarrow> string option \<times> sys" where
  "Host e printed t s =
     (case Asset e devtunnel_assets ''devtunnel'' of
        Inl err \<Rightarrow> (Some err, s)
      | Inr asset \<Rightarrow>
          let bin = Bin e ''devtunnel''; (err, s) = Fetch e bin (cliBase @ asset @ ''-devtunnel'') s in
          if err \<noteq> None then (err, s) else
          let (err, s) = tasks_Exec e (host_command e t) s;
              out = fold (\<lambda>b out. snd (Write b out)) (printed (tick s)) \<lparr>kept_bytes = []\<rparr>;
              err = (case err of None \<Rightarrow> ''exit status 0'' | Some err \<Rightarrow> err)
          in (Some (''host process exited (output='' @ quoted (output_String out) @ ''): '' @ err), s))"

definition devtunnel_New :: "string \<Rightarrow> string \<Rightarrow> string + Tunnel" where
  "devtunnel_New args token =
     (case parse_flags [(''id'', TextFlag), (''cluster'', TextFlag)] (Fields args) of
        None \<Rightarrow> Inl ''--tunnel-devtunnel-args needs only --id and --cluster''
      | Some (sets, left) \<Rightarrow>
          let name = text_setting sets ''id''; region = text_setting sets ''cluster'' in
          if left \<noteq> [] \<or> name = [] \<or> region = []
          then Inl ''--tunnel-devtunnel-args needs only --id and --cluster''
          else Inr \<lparr>tunnel_id = name, cluster = region, host_token = token\<rparr>)"

interpretation devtunnel_transport: transport devtunnel_New
proof unfold_locales
  show "\<exists>run'. devtunnel_New args token' = Inr run'" if "devtunnel_New args token = Inr run" for args token run token'
    using that by (auto simp: devtunnel_New_def Let_def split: option.splits prod.splits if_splits)
qed (auto simp: devtunnel_New_def text_setting_def setting_def)

lemma devtunnel_New_example:
  "devtunnel_New ''--id a --cluster use'' token = Inr \<lparr>tunnel_id = ''a'', cluster = ''use'', host_token = token\<rparr>"
  by code_simp

section \<open>Properties\<close>

text \<open>C29: a host never ends without an error, and once its command was fetched and run the error carries
  the last 64KB of all it wrote, however the writes were cut.\<close>

theorem Host_reports_the_last_64KB:
  assumes "Asset e devtunnel_assets ''devtunnel'' = Inr asset"
    and "Fetch e (Bin e ''devtunnel'') (cliBase @ asset @ ''-devtunnel'') s = (None, s1)"
    and "tasks_Exec e (host_command e t) s1 = (err, s2)"
  shows "Host e printed t s =
      (Some (''host process exited (output='' @ quoted (take_last (64 * 1024) (concat (printed (tick s2)))) @ ''): '' @
        (case err of None \<Rightarrow> ''exit status 0'' | Some err \<Rightarrow> err)), s2) \<and>
    (\<exists>err. fst (Host e' printed' t' s') = Some err)"
proof
  show "Host e printed t s =
      (Some (''host process exited (output='' @ quoted (take_last (64 * 1024) (concat (printed (tick s2)))) @ ''): '' @
        (case err of None \<Rightarrow> ''exit status 0'' | Some err \<Rightarrow> err)), s2)"
    using host_output.content_all [of "printed (tick s2)"] assms
    by (simp add: Host_def Let_def output_limit_def)
  show "\<exists>err. fst (Host e' printed' t' s') = Some err"
    by (auto simp: Host_def Let_def split: sum.splits prod.splits)
qed

theorem Host_reports_the_last_64KB_witness:
  "\<exists>s'. Host (quiet_env None) (\<lambda>_. [''no '', ''route'']) \<lparr>tunnel_id = ''a'', cluster = ''use'', host_token = ''t''\<rparr>
     \<lparr>tasks = empty_world, pausing = {}, disk = [Bin (quiet_env None) ''devtunnel'' \<mapsto> Regular (Bytes [])], tick = 0\<rparr> =
       (Some (''host process exited (output=\"no route\"): exit status 0''), s')"
proof -
  let ?e = "quiet_env None" and ?t = "\<lparr>tunnel_id = ''a'', cluster = ''use'', host_token = ''t''\<rparr>"
  let ?s = "\<lparr>tasks = empty_world, pausing = {}, disk = [Bin ?e ''devtunnel'' \<mapsto> Regular (Bytes [])], tick = 0\<rparr>"
  have asset: "Asset ?e devtunnel_assets ''devtunnel'' = Inr ''linux-x64''"
    by (simp add: Asset_def devtunnel_assets_def)
  have fetch: "Fetch ?e (Bin ?e ''devtunnel'') (cliBase @ ''linux-x64'' @ ''-devtunnel'') ?s = (None, turn ?e ?s)"
    by (simp add: Fetch_def os_Exists_def Let_def)
  have exec: "tasks_Exec ?e (host_command ?e ?t) (turn ?e ?s) = (None, turn ?e (turn ?e ?s))"
    by (simp add: tasks_Exec_def Let_def)
  have "quoted ''no route'' = ''\"no route\"''" by code_simp
  then show ?thesis
    using Host_reports_the_last_64KB [OF asset fetch exec, of "\<lambda>_. [''no '', ''route'']"]
    by (simp add: take_last_all)
qed

end
