(* ===== verification/Url.thy ===== *)
theory Url
  imports Prelude
begin

text \<open>
  \<^verbatim>\<open>url.Parse\<close>, as far as its callers look at the result: the error, the scheme in lower case and
  the host with its port. Whether an address in brackets is one is the argument \<open>ip_literal\<close>.
\<close>

definition is_alpha :: "char \<Rightarrow> bool" where
  "is_alpha c \<longleftrightarrow> (let n = (of_char c :: nat) in 65 \<le> n \<and> n \<le> 90 \<or> 97 \<le> n \<and> n \<le> 122)"

definition is_hex :: "char \<Rightarrow> bool" where
  "is_hex c \<longleftrightarrow> (let n = (of_char c :: nat) in is_digit c \<or> 65 \<le> n \<and> n \<le> 70 \<or> 97 \<le> n \<and> n \<le> 102)"

definition to_lower :: "char \<Rightarrow> char" where
  "to_lower c = (let n = (of_char c :: nat) in if 65 \<le> n \<and> n \<le> 90 then char_of (n + 32) else c)"

definition cut_or :: "char \<Rightarrow> string \<Rightarrow> string \<times> string" where
  "cut_or c s = (case cut_at c s of Some p \<Rightarrow> p | None \<Rightarrow> (s, []))"

definition cut_last :: "char \<Rightarrow> string \<Rightarrow> (string \<times> string) option" where
  "cut_last c s = map_option (\<lambda>(a, b). (rev b, rev a)) (cut_at c (rev s))"

text \<open>A scheme is a letter and then letters, digits, \<^verbatim>\<open>+\<close>, \<^verbatim>\<open>-\<close> and \<^verbatim>\<open>.\<close>, up to a colon.\<close>

fun scan_scheme :: "bool \<Rightarrow> string \<Rightarrow> string \<Rightarrow> string \<Rightarrow> (string \<times> string) option" where
  "scan_scheme first whole seen [] = Some ([], whole)"
| "scan_scheme first whole seen (c # cs) =
     (if is_alpha c then scan_scheme False whole (seen @ [c]) cs
      else if is_digit c \<or> c \<in> {CHR ''+'', CHR ''-'', CHR ''.''} then
        (if first then Some ([], whole) else scan_scheme False whole (seen @ [c]) cs)
      else if c = CHR '':'' then (if first then None else Some (seen, cs))
      else Some ([], whole))"

definition get_scheme :: "string \<Rightarrow> (string \<times> string) option" where
  "get_scheme s = scan_scheme True s [] s"

fun escapes_ok :: "string \<Rightarrow> bool" where
  "escapes_ok [] = True"
| "escapes_ok (c # cs) =
     (if c = CHR ''%'' then (case cs of a # b # rest \<Rightarrow> is_hex a \<and> is_hex b \<and> escapes_ok rest | _ \<Rightarrow> False)
      else escapes_ok cs)"

definition host_char :: "char \<Rightarrow> bool" where
  "host_char c \<longleftrightarrow> is_alpha c \<or> is_digit c \<or> (of_char c :: nat) \<ge> 128 \<or>
     c \<in> set ''!$&()*+,;=:[]<>-_.~'' \<or> c = CHR 0x27 \<or> c = CHR 0x22"

text \<open>An escape in a host stands for a byte beyond ASCII, or for the percent sign.\<close>

fun host_ok :: "string \<Rightarrow> bool" where
  "host_ok [] = True"
| "host_ok (c # cs) =
     (if c = CHR ''%'' then
        (case cs of a # b # rest \<Rightarrow> is_hex a \<and> is_hex b \<and>
             (a \<notin> set ''01234567'' \<or> a = CHR ''2'' \<and> b = CHR ''5'') \<and> host_ok rest
         | _ \<Rightarrow> False)
      else host_char c \<and> host_ok cs)"

definition port_ok :: "string \<Rightarrow> bool" where
  "port_ok p \<longleftrightarrow> p = [] \<or> hd p = CHR '':'' \<and> list_all is_digit (tl p)"

definition parse_host :: "(string \<Rightarrow> bool) \<Rightarrow> string \<Rightarrow> string option" where
  "parse_host ip_literal host =
     (if CHR ''['' \<in> set (tl host) then None
      else if has_prefix host ''['' then
        (case cut_last (CHR '']'') host of
           None \<Rightarrow> None
         | Some (br, port) \<Rightarrow> if port_ok port \<and> ip_literal (tl br) then Some host else None)
      else if port_ok (case cut_at (CHR '':'') host of Some (h, p) \<Rightarrow> CHR '':'' # p | None \<Rightarrow> []) \<and> host_ok host
      then Some host else None)"

definition userinfo_char :: "char \<Rightarrow> bool" where
  "userinfo_char c \<longleftrightarrow> is_alpha c \<or> is_digit c \<or> c \<in> set ''-._:~!$&()*+,;=%@'' \<or> c = CHR 0x27"

definition parse_authority :: "(string \<Rightarrow> bool) \<Rightarrow> string \<Rightarrow> string option" where
  "parse_authority ip_literal authority = (case cut_last (CHR ''@'') authority of
       None \<Rightarrow> parse_host ip_literal authority
     | Some (user, host) \<Rightarrow>
         if list_all userinfo_char user \<and> escapes_ok user then parse_host ip_literal host else None)"

definition is_control :: "char \<Rightarrow> bool" where
  "is_control c \<longleftrightarrow> (of_char c :: nat) < 32 \<or> (of_char c :: nat) = 127"

definition parse_url :: "(string \<Rightarrow> bool) \<Rightarrow> string \<Rightarrow> (string \<times> string) option" where
  "parse_url ip_literal raw =
     (let (u, frag) = cut_or (CHR ''#'') raw in
      if list_ex is_control u \<or> \<not> escapes_ok frag then None
      else if u = ''*'' then Some ([], [])
      else case get_scheme u of
          None \<Rightarrow> None
        | Some (scheme, rest) \<Rightarrow>
           (let scheme = map to_lower scheme; rest = fst (cut_or (CHR ''?'') rest) in
            if \<not> has_prefix rest ''/'' \<and> scheme \<noteq> [] then Some (scheme, [])
            else if \<not> has_prefix rest ''/'' \<and> CHR '':'' \<in> set (fst (cut_or (CHR ''/'') rest)) then None
            else if has_prefix rest ''//'' \<and> (scheme \<noteq> [] \<or> \<not> has_prefix rest ''///'') then
              (let (authority, path) = cut_or (CHR ''/'') (drop 2 rest) in
               if escapes_ok path then map_option (\<lambda>host. (scheme, host)) (parse_authority ip_literal authority)
               else None)
            else if escapes_ok rest then Some (scheme, []) else None))"

lemma parse_url_examples:
  "parse_url (\<lambda>_. False) ''wss://plane.example:8443/link?x=1'' = Some (''wss'', ''plane.example:8443'')"
  "parse_url (\<lambda>_. False) ''WS://plane'' = Some (''ws'', ''plane'')"
  "parse_url (\<lambda>_. False) ''ws:plane'' = Some (''ws'', [])"
  "parse_url (\<lambda>_. False) ''plane:80'' = Some (''plane'', [])"
  "parse_url (\<lambda>_. False) ''ws://plane:x'' = None"
  "parse_url (\<lambda>_. False) ''://plane'' = None"
  by code_simp+

end
