(* ===== verification/Copies.thy ===== *)
theory Copies
  imports Prelude
begin

text \<open>
  Two connections joined by a copy each way, as \<^verbatim>\<open>io.Copy\<close> in a goroutine per direction joins them
  in \<^verbatim>\<open>internal/tunnel/link\<close> and \<^verbatim>\<open>internal/sshd\<close>: what has come over either, what each copy holds,
  and what happens to the connections when a copy ends is an argument.
\<close>

section \<open>The copies\<close>

text \<open>A copy reads, or holds what it has read and writes it, until a read or a write ends it.\<close>

datatype copier = Copying | Holding string | Stopped

record joined =
  left_sent :: string
  left_unread :: string
  right_sent :: string
  right_unread :: string
  to_left :: string
  to_right :: string
  left_open :: bool
  right_open :: bool
  rightward :: copier
  leftward :: copier

definition joined_start :: "joined \<Rightarrow> bool" where
  "joined_start s \<longleftrightarrow> s = \<lparr>left_sent = [], left_unread = [], right_sent = [], right_unread = [], to_left = [],
     to_right = [], left_open = True, right_open = True, rightward = Copying, leftward = Copying\<rparr>"

text \<open>
  \<open>er\<close> and \<open>el\<close> are what is deferred to the end of the copy to the right and of that to the left. A
  read of a closed connection fails, and a write that fails may have written a part.
\<close>

inductive copying :: "(joined \<Rightarrow> joined) \<Rightarrow> (joined \<Rightarrow> joined) \<Rightarrow> joined \<Rightarrow> joined \<Rightarrow> bool" for er el where
  rightward_reads: "copying er el s (s\<lparr>rightward := Holding (take n (left_unread s)), left_unread := drop n (left_unread s)\<rparr>)"
    if "rightward s = Copying" and "left_open s" and "0 < n" and "n \<le> length (left_unread s)"
| rightward_writes: "copying er el s (s\<lparr>to_right := to_right s @ b, rightward := Copying\<rparr>)"
    if "rightward s = Holding b" and "right_open s"
| rightward_ends: "copying er el s (er (s\<lparr>rightward := Stopped\<rparr>))" if "rightward s = Copying"
| rightward_fails: "copying er el s (er (s\<lparr>to_right := to_right s @ take k b, rightward := Stopped\<rparr>))"
    if "rightward s = Holding b"
| leftward_reads: "copying er el s (s\<lparr>leftward := Holding (take n (right_unread s)), right_unread := drop n (right_unread s)\<rparr>)"
    if "leftward s = Copying" and "right_open s" and "0 < n" and "n \<le> length (right_unread s)"
| leftward_writes: "copying er el s (s\<lparr>to_left := to_left s @ b, leftward := Copying\<rparr>)"
    if "leftward s = Holding b" and "left_open s"
| leftward_ends: "copying er el s (el (s\<lparr>leftward := Stopped\<rparr>))" if "leftward s = Copying"
| leftward_fails: "copying er el s (el (s\<lparr>to_left := to_left s @ take k b, leftward := Stopped\<rparr>))"
    if "leftward s = Holding b"

inductive sending :: "joined \<Rightarrow> joined \<Rightarrow> bool" where
  left_sends: "sending s (s\<lparr>left_sent := left_sent s @ b, left_unread := left_unread s @ b\<rparr>)" if "left_open s"
| right_sends: "sending s (s\<lparr>right_sent := right_sent s @ b, right_unread := right_unread s @ b\<rparr>)" if "right_open s"

definition joined_step :: "(joined \<Rightarrow> joined) \<Rightarrow> (joined \<Rightarrow> joined) \<Rightarrow> joined \<Rightarrow> joined \<Rightarrow> bool" where
  "joined_step er el s t \<longleftrightarrow> copying er el s t \<or> sending s t"

inductive_cases copyingE: "copying er el s t"
inductive_cases sendingE: "sending s t"

section \<open>The invariant\<close>

fun holds :: "copier \<Rightarrow> string" where
  "holds (Holding b) = b"
| "holds _ = []"

text \<open>What was sent is what was written, what is held, what was lost at the end, and what is unread.\<close>

definition carried_over :: "string \<Rightarrow> string \<Rightarrow> copier \<Rightarrow> string \<Rightarrow> bool" where
  "carried_over sent written copy unread \<longleftrightarrow>
     (\<exists>lost. sent = written @ holds copy @ lost @ unread \<and> (copy \<noteq> Stopped \<longrightarrow> lost = []))"

definition joined_ok :: "joined \<Rightarrow> bool" where
  "joined_ok s \<longleftrightarrow>
     carried_over (left_sent s) (to_right s) (rightward s) (left_unread s) \<and>
     carried_over (right_sent s) (to_left s) (leftward s) (right_unread s) \<and>
     (rightward s = Stopped \<longrightarrow> \<not> right_open s) \<and> (leftward s = Stopped \<longrightarrow> \<not> left_open s)"

lemma carried_read:
  "carried_over sent written Copying unread \<Longrightarrow> carried_over sent written (Holding (take n unread)) (drop n unread)"
  by (simp add: carried_over_def)

lemma carried_write: "carried_over sent written (Holding b) unread \<Longrightarrow> carried_over sent (written @ b) Copying unread"
  by (simp add: carried_over_def)

lemma carried_fail: "carried_over sent written (Holding b) unread \<Longrightarrow> carried_over sent (written @ take k b) Stopped unread"
  by (auto simp: carried_over_def intro!: exI [of _ "drop k b"])

lemma carried_end: "carried_over sent written Copying unread \<Longrightarrow> carried_over sent written Stopped unread"
  by (simp add: carried_over_def)

lemma carried_send: "carried_over sent written copy unread \<Longrightarrow> carried_over (sent @ b) written copy (unread @ b)"
  by (auto simp: carried_over_def)

lemma carried_start: "carried_over [] [] Copying []"
  by (simp add: carried_over_def)

lemmas carried_steps = carried_read carried_write carried_fail carried_end carried_send carried_start

fun moves_left :: "copier \<Rightarrow> nat" where
  "moves_left Stopped = 0" | "moves_left Copying = 1" | "moves_left (Holding b) = 2"

definition copies_left :: "joined \<Rightarrow> nat" where
  "copies_left s = moves_left (rightward s) + moves_left (leftward s)"

section \<open>The contract of the ends\<close>

text \<open>The end of a copy closes what it writes to, and may close the other connection.\<close>

locale joining =
  fixes er el :: "joined \<Rightarrow> joined"
  assumes rightward_closes: "\<exists>b. er s = s\<lparr>left_open := left_open s \<and> b, right_open := False\<rparr>"
    and leftward_closes: "\<exists>b. el s = s\<lparr>left_open := False, right_open := right_open s \<and> b\<rparr>"
begin

lemma er_cases: obtains b where "er s = s\<lparr>left_open := left_open s \<and> b, right_open := False\<rparr>"
  using rightward_closes by blast

lemma el_cases: obtains b where "el s = s\<lparr>left_open := False, right_open := right_open s \<and> b\<rparr>"
  using leftward_closes by blast

lemma er_simps [simp]:
  "left_sent (er s) = left_sent s" "left_unread (er s) = left_unread s" "right_sent (er s) = right_sent s"
  "right_unread (er s) = right_unread s" "to_left (er s) = to_left s" "to_right (er s) = to_right s"
  "rightward (er s) = rightward s" "leftward (er s) = leftward s" "\<not> right_open (er s)"
  "\<not> left_open s \<Longrightarrow> \<not> left_open (er s)"
  by (rule er_cases [of s]; simp)+

lemma el_simps [simp]:
  "left_sent (el s) = left_sent s" "left_unread (el s) = left_unread s" "right_sent (el s) = right_sent s"
  "right_unread (el s) = right_unread s" "to_left (el s) = to_left s" "to_right (el s) = to_right s"
  "rightward (el s) = rightward s" "leftward (el s) = leftward s" "\<not> left_open (el s)"
  "\<not> right_open s \<Longrightarrow> \<not> right_open (el s)"
  by (rule el_cases [of s]; simp)+

lemma copying_ok: "copying er el s t \<Longrightarrow> joined_ok s \<Longrightarrow> joined_ok t"
  by (erule copyingE) (auto simp: joined_ok_def intro: carried_steps)

lemma sending_ok: "sending s t \<Longrightarrow> joined_ok s \<Longrightarrow> joined_ok t"
  by (erule sendingE) (auto simp: joined_ok_def intro: carried_steps)

end

sublocale joining \<subseteq> kept: invariant_of joined_start "joined_step er el" joined_ok
proof unfold_locales
  show "joined_ok t" if "joined_ok s" "joined_step er el s t" for s t
    using that copying_ok sending_ok unfolding joined_step_def by blast
qed (simp add: joined_start_def joined_ok_def carried_start)

context joining begin

lemma in_order:
  assumes "reach joined_start (joined_step er el) s"
  shows "\<exists>l r. left_sent s = to_right s @ l \<and> right_sent s = to_left s @ r"
  using kept.reachable_inv [OF assms] by (auto simp: joined_ok_def carried_over_def)

text \<open>Once one copy has stopped, the other makes at most two more moves, and then both connections are closed.\<close>

lemma copying_decreases:
  "copying er el s t \<Longrightarrow> joined_ok s \<Longrightarrow> rightward s = Stopped \<or> leftward s = Stopped \<Longrightarrow> copies_left t < copies_left s"
  by (erule copyingE) (auto simp: joined_ok_def copies_left_def)

lemma copying_stopped:
  "copying er el s t \<Longrightarrow> rightward s = Stopped \<or> leftward s = Stopped \<Longrightarrow> rightward t = Stopped \<or> leftward t = Stopped"
  by (erule copyingE) auto

lemma copying_enabled:
  assumes "rightward s \<noteq> Stopped \<or> leftward s \<noteq> Stopped"
  shows "\<exists>t. copying er el s t"
proof -
  have "\<exists>t. copying er el s t" if "rightward s \<noteq> Stopped"
    using that rightward_ends rightward_fails by (cases "rightward s") blast+
  moreover have "\<exists>t. copying er el s t" if "leftward s \<noteq> Stopped"
    using that leftward_ends leftward_fails by (cases "leftward s") blast+
  ultimately show ?thesis using assms by blast
qed

lemma copying_run:
  assumes "(copying er el ^^ n) s t" and "joined_ok s" and "rightward s = Stopped \<or> leftward s = Stopped"
  shows "joined_ok t \<and> (rightward t = Stopped \<or> leftward t = Stopped) \<and> n + copies_left t \<le> copies_left s"
  using assms(1)
proof (induction n arbitrary: t)
  case (Suc n)
  then obtain u where u: "(copying er el ^^ n) s u" "copying er el u t" by auto
  note IH = Suc.IH [OF u(1)]
  with copying_ok [OF u(2)] copying_stopped [OF u(2)] copying_decreases [OF u(2)] show ?case by auto
qed (use assms(2,3) in simp)

lemma both_close:
  assumes "reach joined_start (joined_step er el) s" and "rightward s = Stopped \<or> leftward s = Stopped"
    and "(copying er el ^^ n) s t"
  shows "n \<le> 2 \<and> ((\<exists>u. copying er el t u) \<or> \<not> left_open t \<and> \<not> right_open t)"
proof -
  note run = copying_run [OF assms(3) kept.reachable_inv [OF assms(1)] assms(2)]
  moreover have "copies_left s \<le> 2"
    using assms(2) by (cases "rightward s"; cases "leftward s") (auto simp: copies_left_def)
  moreover have "\<not> left_open t \<and> \<not> right_open t" if "\<nexists>u. copying er el t u"
    using copying_enabled [of t] that run by (auto simp: joined_ok_def)
  ultimately show ?thesis by auto
qed

end

end
