(* ===== verification/Link.thy ===== *)
theory Link
  imports Forward Devtunnel Url Copies
begin

text \<open>
  \<^verbatim>\<open>internal/tunnel/link/link.go\<close>: the streams of a link, what each is answered and joined to, and
  the arguments of the transport.
\<close>

section \<open>The transport\<close>

record Link =
  link_url :: string
  Subprotocols :: "string list"

definition link_Env :: string where
  "link_Env = ''LINKSPAN_LINK_TOKEN''"

definition link_Usage :: string where
  "link_Usage = ''link transport `args`: \"--url <ws|wss URL>\" of cs-plane; token in '' @ link_Env"

definition protocol :: string where
  "protocol = ''cybershuttle.v1''"

definition link_New :: "(string \<Rightarrow> bool) \<Rightarrow> string \<Rightarrow> string \<Rightarrow> string + Link" where
  "link_New ip_literal args token =
     (case parse_flags [(''url'', TextFlag)] (Fields args) of
        None \<Rightarrow> Inl ''--tunnel-link-args needs only --url, a ws or wss URL''
      | Some (sets, left) \<Rightarrow>
          let rawURL = text_setting sets ''url''; u = parse_url ip_literal rawURL in
          if left \<noteq> [] \<or> u = None \<or> snd (the u) = [] \<or> fst (the u) \<noteq> ''ws'' \<and> fst (the u) \<noteq> ''wss''
          then Inl ''--tunnel-link-args needs only --url, a ws or wss URL''
          else Inr \<lparr>link_url = rawURL, Subprotocols = [protocol, ''link.'' @ token]\<rparr>)"

interpretation link_transport: transport "link_New ip_literal" for ip_literal
proof unfold_locales
  show "\<exists>run'. link_New ip_literal args token' = Inr run'" if "link_New ip_literal args token = Inr run"
    for args token run token'
    using that by (auto simp: link_New_def Let_def split: option.splits prod.splits if_splits)
  have "parse_url ip_literal [] = Some ([], [])" by code_simp
  then show "\<exists>err. link_New ip_literal args token = Inl err" if "Fields args = []" for args token
    using that by (simp add: link_New_def text_setting_def setting_def)
qed (simp add: link_New_def)

section \<open>Streams\<close>

text \<open>
  A stream begins with a port, two bytes of it, the higher first. \<open>received\<close> is what the stream
  carries until it ends or is read no further.
\<close>

definition Uint16 :: "8 word \<Rightarrow> 8 word \<Rightarrow> 16 word" where
  "Uint16 hi lo = word_cat hi lo"

datatype carried = Dropped | Refused | Joined string

definition carry :: "env \<Rightarrow> (nat \<Rightarrow> string \<Rightarrow> bool) \<Rightarrow> 8 word list \<Rightarrow> sys \<Rightarrow> (8 word list \<times> carried) \<times> sys" where
  "carry e connects received s =
     (case received of
        hi # lo # rest \<Rightarrow>
         (let (server, s) = Dial e connects (uint (Uint16 hi lo)) s in
          case server of
            None \<Rightarrow> (([0], Refused), s)
          | Some addr \<Rightarrow> (([1], Joined addr), s))
      | _ \<Rightarrow> (([], Dropped), s))"

text \<open>
  A joined stream, on the left, and the server are copied each way: the copy to the server closes
  the server when it ends, and the stream is closed when the other does.
\<close>

definition close_server :: "joined \<Rightarrow> joined" where
  "close_server s = s\<lparr>right_open := False\<rparr>"

definition close_stream :: "joined \<Rightarrow> joined" where
  "close_stream s = s\<lparr>left_open := False\<rparr>"

definition carry_step :: "joined \<Rightarrow> joined \<Rightarrow> bool" where
  "carry_step = joined_step close_server close_stream"

interpretation carry_copies: joining close_server close_stream
  by unfold_locales (auto simp: close_server_def close_stream_def intro!: exI [of _ True])

fun accept_streams :: "env \<Rightarrow> (nat \<Rightarrow> string \<Rightarrow> bool) \<Rightarrow> 8 word list list \<Rightarrow> sys \<Rightarrow>
    (8 word list \<times> carried) list \<times> sys" where
  "accept_streams e connects [] s = ([], s)"
| "accept_streams e connects (received # streams) s =
     (let (r, s) = carry e connects received s; (rs, s) = accept_streams e connects streams s in (r # rs, s))"

text \<open>A link ends with an error: of its connection, or of the accept that fails after \<open>streams\<close>.\<close>

definition link_Run :: "env \<Rightarrow> (nat \<Rightarrow> string \<Rightarrow> bool) \<Rightarrow> (nat \<Rightarrow> string option) \<Rightarrow> 8 word list list \<Rightarrow> string \<Rightarrow> sys \<Rightarrow>
    (string \<times> (8 word list \<times> carried) list) \<times> sys" where
  "link_Run e connects dial_error streams accept_error s =
     (let s = turn e s in
      case dial_error (tick s) of
        Some err \<Rightarrow> ((err, []), s)
      | None \<Rightarrow> (let (answers, s) = accept_streams e connects streams s in ((accept_error, answers), s)))"

text \<open>What the other side sends for a port.\<close>

definition port_bytes :: "int \<Rightarrow> 8 word list" where
  "port_bytes port = [word_of_int (port div 256), word_of_int (port mod 256)]"

definition read_port :: "8 word list \<Rightarrow> int option" where
  "read_port bs = (case bs of [hi, lo] \<Rightarrow> Some (uint (Uint16 hi lo)) | _ \<Rightarrow> None)"

lemma uint_Uint16: "uint (Uint16 hi lo) = uint hi * 256 + uint lo"
proof -
  have b: "0 \<le> uint hi" "uint hi < 256" "0 \<le> uint lo" "uint lo < 256"
    using uint_bounded [of hi] uint_bounded [of lo] by simp_all
  have "uint (Uint16 hi lo) = (uint lo mod 256 + uint hi * 256) mod 65536"
    unfolding Uint16_def word_cat_eq' concat_bit_eq uint_word_of_int take_bit_eq_mod push_bit_eq_mult by simp
  also have "\<dots> = uint hi * 256 + uint lo"
    using b by simp
  finally show ?thesis .
qed

interpretation port_code: codec port_bytes read_port "\<lambda>port. 0 \<le> port \<and> port < 2 ^ 16"
proof unfold_locales
  fix port :: int
  assume port: "0 \<le> port \<and> port < 2 ^ 16"
  then have "port div 256 mod 256 = port div 256" by (intro mod_pos_pos_trivial) auto
  then show "read_port (port_bytes port) = Some port"
    by (simp add: read_port_def port_bytes_def uint_Uint16 uint_word_of_int take_bit_eq_mod mod_div_trivial)
qed

section \<open>Lemmas\<close>

lemma carry_port:
  assumes "0 \<le> port" and "port < 2 ^ 16"
  shows "carry e connects (port_bytes port @ rest) s =
    (let (server, s) = Dial e connects port s in
     case server of None \<Rightarrow> (([0], Refused), s) | Some addr \<Rightarrow> (([1], Joined addr), s))"
  using port_code.dec_enc [of port] assms by (simp add: carry_def port_bytes_def read_port_def)

lemma flag_url: "flag_of ''--url'' = FlagArg ''url'' None"
  by code_simp

lemma link_args: "list_all (\<lambda>c. \<not> is_space c) u \<Longrightarrow> u \<noteq> [] \<Longrightarrow> Fields (''--url '' @ u) = [''--url'', u]"
  using fields_word [of "''--url''" "CHR '' ''" u] fields_last [of u] by (simp add: is_space_def)

lemma link_New_url:
  assumes "list_all (\<lambda>c. \<not> is_space c) u" and "u \<noteq> []"
  shows "link_New ip_literal (''--url '' @ u) token =
    (case parse_url ip_literal u of
       Some (scheme, host) \<Rightarrow>
         if host \<noteq> [] \<and> (scheme = ''ws'' \<or> scheme = ''wss'')
         then Inr \<lparr>link_url = u, Subprotocols = [protocol, ''link.'' @ token]\<rparr>
         else Inl ''--tunnel-link-args needs only --url, a ws or wss URL''
     | None \<Rightarrow> Inl ''--tunnel-link-args needs only --url, a ws or wss URL'')"
  unfolding link_New_def link_args [OF assms]
  by (auto simp: flag_url text_setting_def setting_def split: option.splits)

section \<open>Properties\<close>

text \<open>C27: a stream of a link reaches the port its first two bytes name and no other: it is answered 1 and
  joined to that port on loopback when a running task serves it and it can be connected to, and
  else answered 0; a stream that ends before its port is not answered.\<close>

theorem stream_reaches_the_port_it_names:
  assumes "0 \<le> port" and "port < 2 ^ 16"
  shows "fst (carry e connects (port_bytes port @ rest) s) =
      (if IsServing port (tasks (others e s)) \<and> connects (tick (turn e (turn e s))) (loopback port)
       then ([1], Joined (loopback port)) else ([0], Refused)) \<and>
    (length short < 2 \<longrightarrow> carry e connects short s = (([], Dropped), s))"
proof -
  have "carry e connects short s = (([], Dropped), s)" if "length short < 2"
    using that by (auto simp: carry_def split: list.splits)
  then show ?thesis
    by (simp add: carry_port [OF assms] Dial_def tasks_IsServing_def join_host_port_loopback Let_def)
qed

theorem stream_reaches_the_port_it_names_witness:
  "fst (carry (quiet_env None) (\<lambda>_ _. True) [31, 144] serving_sys) = ([1], Joined (loopback 8080))"
proof -
  have "port_bytes 8080 @ [] = [31, 144]" by (simp add: port_bytes_def)
  with stream_reaches_the_port_it_names [of 8080 "quiet_env None" "\<lambda>_ _. True" "[]" serving_sys "[]"]
  show ?thesis by (simp add: serving_8080)
qed



text \<open>The link is accepted exactly with one URL whose scheme is \<^verbatim>\<open>ws\<close> or \<^verbatim>\<open>wss\<close> and that has a host; it
  is then dialled as it was written, offering the protocol and the token.\<close>

theorem link_New_needs_a_websocket_url:
  assumes "list_all (\<lambda>c. \<not> is_space c) u" and "u \<noteq> []"
  shows "link_New ip_literal (''--url '' @ u) token = Inr l \<longleftrightarrow>
    (\<exists>scheme host. parse_url ip_literal u = Some (scheme, host) \<and> host \<noteq> [] \<and> scheme \<in> {''ws'', ''wss''}) \<and>
    link_url l = u \<and> Subprotocols l = [''cybershuttle.v1'', ''link.'' @ token]"
  unfolding link_New_url [OF assms]
  by (cases l) (auto simp: protocol_def split: option.splits)

theorem link_New_needs_a_websocket_url_witness:
  "link_New (\<lambda>_. False) ''--url wss://plane.example:8443/link?x=1'' ''t'' =
     Inr \<lparr>link_url = ''wss://plane.example:8443/link?x=1'', Subprotocols = [''cybershuttle.v1'', ''link.t'']\<rparr>"
proof -
  let ?u = "''wss://plane.example:8443/link?x=1''"
  have "list_all (\<lambda>c. \<not> is_space c) ?u" by code_simp
  from link_New_needs_a_websocket_url [OF this, of "\<lambda>_. False" "''t''"] show ?thesis
    by (simp add: parse_url_examples)
qed

end
