(* ===== verification/Tunnel.thy ===== *)
theory Tunnel
  imports Link
begin

text \<open>
  \<^verbatim>\<open>internal/tunnel/tunnel.go\<close>: the transports by name, the tasks of those that are listed, and the
  reruns of each.
\<close>

section \<open>The transports\<close>

datatype attempt = LinkRun Link | TunnelHost Tunnel

record Transport =
  usage_text :: string
  token_env :: string
  start :: "string \<Rightarrow> string \<Rightarrow> string + attempt"

definition Transports :: "(string \<Rightarrow> bool) \<Rightarrow> (string \<times> Transport) list" where
  "Transports ip_literal =
     [(''link'', \<lparr>usage_text = link_Usage, token_env = link_Env,
         start = (\<lambda>args token. map_sum id LinkRun (link_New ip_literal args token))\<rparr>),
      (''devtunnel'', \<lparr>usage_text = devtunnel_Usage, token_env = devtunnel_Env,
         start = (\<lambda>args token. map_sum id TunnelHost (devtunnel_New args token))\<rparr>)]"

section \<open>\<^verbatim>\<open>Parse\<close>\<close>

fun list_names :: "(string \<times> Transport) list \<Rightarrow> string \<Rightarrow> string list \<Rightarrow> (string \<Rightarrow> bool) \<Rightarrow> string + (string \<Rightarrow> bool)" where
  "list_names table modes [] listed = Inr listed"
| "list_names table modes (name # names) listed =
     (if modes \<noteq> [] \<and> (map_of table name = None \<or> listed name)
      then Inl (''--tunnel-mode: '' @ quoted name @ '' is not link or devtunnel, or is repeated'')
      else list_names table modes names (listed(name := True)))"

definition transport_task :: "string \<Rightarrow> Task" where
  "transport_task name = zero_task\<lparr>Kind := name, Work := RunWork\<rparr>"

fun start_listed :: "(string \<times> Transport) list \<Rightarrow> (string \<Rightarrow> string) \<Rightarrow> (string \<Rightarrow> bool) \<Rightarrow> (string \<Rightarrow> string) \<Rightarrow>
    string list \<Rightarrow> string + (Task \<times> attempt) list" where
  "start_listed table env listed args [] = Inr []"
| "start_listed table env listed args (name # names) =
     (if listed name \<noteq> (args name \<noteq> [])
      then Inl (''--tunnel-'' @ name @ ''-args is required with --tunnel-mode='' @ name @ '' and refused without it'')
      else if \<not> listed name then start_listed table env listed args names
      else let t = the (map_of table name); token = env (token_env t) in
        if token = [] then Inl (token_env t @ '' is required with the '' @ name @ '' transport'')
        else case start t (args name) token of
            Inl err \<Rightarrow> Inl err
          | Inr run \<Rightarrow> map_sum id (\<lambda>ts. (transport_task name, run) # ts) (start_listed table env listed args names))"

definition tunnel_Parse :: "(string \<Rightarrow> bool) \<Rightarrow> (string \<Rightarrow> string) \<Rightarrow> bool \<Rightarrow> string \<Rightarrow> (string \<Rightarrow> string) \<Rightarrow>
    string + (Task \<times> attempt) list" where
  "tunnel_Parse ip_literal env enable modes args =
     (if enable \<noteq> (modes \<noteq> [])
      then Inl ''--tunnel-mode is required with --tunnel-enable and refused without it''
      else let table = Transports ip_literal in
        case list_names table modes (split_at_char (CHR '','') modes) (\<lambda>_. False) of
          Inl err \<Rightarrow> Inl err
        | Inr listed \<Rightarrow> start_listed table env listed args (sort (map fst table)))"

section \<open>\<^verbatim>\<open>redial\<close>\<close>

text \<open>
  The attempts to come, each with the time it lasts, its error, and whether the context is done
  before it returns, or later until the next. Durations are in nanoseconds.
\<close>

datatype stop = GoesOn | StopsDuring | StopsAfter

datatype redial_event = Attempts | Logs string | Waits int | Returns

definition second :: int where
  "second = 10 ^ 9"

definition minute :: int where
  "minute = 60 * second"

fun redial_from :: "string \<Rightarrow> int \<Rightarrow> (int \<times> string option \<times> stop) list \<Rightarrow> redial_event list" where
  "redial_from name backoff [] = []"
| "redial_from name backoff ((lasted, err, stop) # attempts) =
     [Attempts] @
     (case err of Some err \<Rightarrow> if stop \<noteq> StopsDuring then [Logs (name @ '': '' @ err)] else [] | None \<Rightarrow> []) @
     (let backoff = (if lasted > minute then second else backoff) in
      case stop of
        GoesOn \<Rightarrow> Waits backoff # redial_from name (min (2 * backoff) minute) attempts
      | StopsDuring \<Rightarrow> [Returns]
      | StopsAfter \<Rightarrow> [Waits backoff, Returns])"

definition redial :: "string \<Rightarrow> bool \<Rightarrow> (int \<times> string option \<times> stop) list \<Rightarrow> redial_event list" where
  "redial name done attempts = (if done then [Returns] else redial_from name second attempts)"

section \<open>Lemmas\<close>

definition modes_of :: "string \<Rightarrow> string list" where
  "modes_of modes = (if modes = [] then [] else split_at_char (CHR '','') modes)"

lemma list_names_Inr:
  "modes \<noteq> [] \<Longrightarrow> list_names table modes names listed = Inr listed' \<longleftrightarrow>
     distinct names \<and> (\<forall>name\<in>set names. map_of table name \<noteq> None \<and> \<not> listed name) \<and>
     listed' = (\<lambda>name. listed name \<or> name \<in> set names)"
proof (induction names arbitrary: listed)
  case (Cons name names)
  obtain l where l: "l = listed(name := True)" by simp
  then have f: "l n \<longleftrightarrow> n = name \<or> listed n" for n by simp
  have r: "list_names table modes names l = Inr listed' \<longleftrightarrow>
      distinct names \<and> (\<forall>n\<in>set names. map_of table n \<noteq> None \<and> \<not> l n) \<and> listed' = (\<lambda>n. l n \<or> n \<in> set names)"
    by (rule Cons.IH [OF Cons.prems])
  show ?case
  proof (cases "map_of table name = None \<or> listed name")
    case False
    then have eq: "list_names table modes (name # names) listed = list_names table modes names l" by (auto simp: l)
    have eqn: "(\<lambda>n. l n \<or> n \<in> set names) = (\<lambda>n. listed n \<or> n \<in> set (name # names))"
      by (auto simp: f fun_eq_iff)
    show ?thesis unfolding eq r eqn using False by (auto simp: f)
  qed (use Cons.prems in auto)
qed auto

lemma list_names_of:
  "list_names table modes (split_at_char (CHR '','') modes) (\<lambda>_. False) = Inr listed \<longleftrightarrow>
     distinct (modes_of modes) \<and> (\<forall>name\<in>set (modes_of modes). map_of table name \<noteq> None) \<and>
     listed = (\<lambda>name. name \<in> set (split_at_char (CHR '','') modes))"
proof (cases "modes = []")
  case True
  have "(\<lambda>_. False)([] := True) = (\<lambda>name :: string. name = [])" by (simp add: fun_eq_iff)
  with True show ?thesis by (auto simp: modes_of_def)
next
  case False
  then show ?thesis by (simp add: modes_of_def list_names_Inr)
qed

definition started_as ::
  "(string \<times> Transport) list \<Rightarrow> (string \<Rightarrow> string) \<Rightarrow> (string \<Rightarrow> string) \<Rightarrow> string \<Rightarrow> Task \<times> attempt \<Rightarrow> bool" where
  "started_as table env args name r \<longleftrightarrow>
     (case map_of table name of
        None \<Rightarrow> False
      | Some t \<Rightarrow> env (token_env t) \<noteq> [] \<and> start t (args name) (env (token_env t)) = Inr (snd r) \<and>
          fst r = transport_task name)"

lemma start_listed_Inr:
  "\<forall>name\<in>set names. map_of table name \<noteq> None \<Longrightarrow>
   start_listed table env listed args names = Inr ts \<longleftrightarrow>
     (\<forall>name\<in>set names. listed name \<longleftrightarrow> args name \<noteq> []) \<and>
     list_all2 (started_as table env args) (filter listed names) ts"
proof (induction names arbitrary: ts)
  case (Cons name names)
  obtain t where t: "map_of table name = Some t" using Cons.prems by auto
  let ?rest = "start_listed table env listed args names"
  show ?case
  proof (cases "listed name = (args name \<noteq> []) \<and> listed name \<and> env (token_env t) \<noteq> []")
    case False
    then show ?thesis using Cons t by (auto simp: Let_def started_as_def list_all2_Cons1)
  next
    case True
    then show ?thesis using Cons t
      by (cases "start t (args name) (env (token_env t))"; cases ?rest)
        (auto simp: Let_def started_as_def list_all2_Cons1)
  qed
qed auto

lemma Transports_sorted: "sort (map fst (Transports ip_literal)) = [''devtunnel'', ''link'']"
  by (simp add: Transports_def)

lemma Transports_known: "map_of (Transports ip_literal) name \<noteq> None \<longleftrightarrow> name \<in> {''link'', ''devtunnel''}"
  by (simp add: Transports_def)

lemma listed_sorted:
  assumes "distinct (modes_of modes)" and "set (modes_of modes) \<subseteq> {''link'', ''devtunnel''}"
  shows "filter (\<lambda>name. name \<in> set (split_at_char (CHR '','') modes)) [''devtunnel'', ''link''] = sort (modes_of modes)"
    (is "?l = _")
proof (rule sorted_distinct_set_unique)
  have "sorted [''devtunnel'', ''link'']" by code_simp
  then show "sorted ?l" by (rule sorted_wrt_filter)
  show "set ?l = set (sort (modes_of modes))"
  proof (cases "modes = []")
    case False
    then show ?thesis using assms(2) unfolding modes_of_def set_filter by (simp only: if_False set_sort) auto
  qed (simp add: modes_of_def)
qed (use assms in simp_all)

definition waits :: "redial_event list \<Rightarrow> int list" where
  "waits es = List.map_filter (\<lambda>e. case e of Waits b \<Rightarrow> Some b | _ \<Rightarrow> None) es"

lemma waits_simps [simp]:
  "waits [] = []" "waits (Attempts # es) = waits es" "waits (Logs m # es) = waits es"
  "waits (Waits b # es) = b # waits es" "waits (Returns # es) = waits es"
  "waits (es @ fs) = waits es @ waits fs"
  by (simp_all add: waits_def map_filter_def)

definition next_wait :: "int \<Rightarrow> int \<Rightarrow> int" where
  "next_wait backoff lasted = (if lasted > minute then second else backoff)"

lemma waits_redial:
  "waits (redial_from name backoff ((lasted, err, GoesOn) # attempts)) =
     next_wait backoff lasted #
     waits (redial_from name (min (2 * next_wait backoff lasted) minute) attempts)"
  by (simp add: next_wait_def Let_def split: option.split)

lemma next_wait_bounds: "second \<le> b \<Longrightarrow> b \<le> minute \<Longrightarrow> second \<le> next_wait b l \<and> next_wait b l \<le> minute"
  by (simp add: next_wait_def second_def minute_def)

lemma redial_wait_bounds:
  "Waits b \<in> set (redial_from name backoff attempts) \<Longrightarrow> second \<le> backoff \<Longrightarrow> backoff \<le> minute \<Longrightarrow>
     second \<le> b \<and> b \<le> minute"
proof (induction name backoff attempts rule: redial_from.induct)
  case (2 name backoff lasted err stop attempts)
  then show ?case
    by (auto simp: Let_def second_def minute_def split: option.splits stop.splits if_splits)
qed simp

lemma doubled: "0 \<le> m \<Longrightarrow> 0 \<le> b \<Longrightarrow> min (2 ^ i * min (2 * b) m) m = min (2 ^ Suc i * b) (m :: int)"
proof -
  assume m: "0 \<le> m" and b: "0 \<le> b"
  have one: "1 \<le> (2 :: int) ^ i" by simp
  have grows: "x \<le> 2 ^ i * x" if "0 \<le> x" for x :: int
    using mult_right_mono [OF one that] by simp
  show ?thesis
  proof (cases "2 * b \<le> m")
    case False
    then have "m \<le> 2 ^ i * (2 * b)" using grows [of "2 * b"] b by linarith
    then show ?thesis using False grows [OF m] by (simp add: min_def mult.assoc mult.left_commute)
  qed (simp add: min_def mult.assoc mult.left_commute)
qed

lemma waits_of_short_attempts:
  "\<forall>a\<in>set attempts. fst a \<le> minute \<and> snd (snd a) = GoesOn \<Longrightarrow> 0 \<le> b \<Longrightarrow> b \<le> minute \<Longrightarrow>
     waits (redial_from name b attempts) = map (\<lambda>i. min (2 ^ i * b) minute) [0..<length attempts]"
proof (induction attempts arbitrary: b)
  case (Cons a attempts)
  obtain l err where a: "a = (l, err, GoesOn)" "l \<le> minute" using Cons.prems(1) by (cases a) auto
  have m: "0 \<le> minute" by (simp add: minute_def second_def)
  have "waits (redial_from name (min (2 * b) minute) attempts) =
      map (\<lambda>i. min (2 ^ i * min (2 * b) minute) minute) [0..<length attempts]"
    using Cons.prems m by (intro Cons.IH) auto
  also have "\<dots> = map (\<lambda>i. min (2 ^ Suc i * b) minute) [0..<length attempts]"
    by (simp only: doubled [OF m Cons.prems(2)])
  finally have "waits (redial_from name b (a # attempts)) =
      b # map (\<lambda>i. min (2 ^ Suc i * b) minute) [0..<length attempts]"
    using a(2) by (simp add: a(1) waits_redial next_wait_def del: redial_from.simps)
  also have "\<dots> = map (\<lambda>i. min (2 ^ i * b) minute) [0..<length (a # attempts)]"
    using Cons.prems(3) by (simp add: map_upt_Suc del: upt_Suc)
  finally show ?case .
qed simp

lemma redial_returns:
  "Returns \<in> set (redial_from name b attempts) \<longleftrightarrow> (\<exists>a\<in>set attempts. snd (snd a) \<noteq> GoesOn)"
proof (induction name b attempts rule: redial_from.induct)
  case (2 name b lasted err stop attempts)
  then show ?case by (cases stop) (fastforce simp: Let_def split: option.splits if_splits)+
qed simp

lemma waits_later:
  "\<forall>a\<in>set earlier. snd (snd a) = GoesOn \<Longrightarrow>
     \<exists>b'. drop (length earlier) (waits (redial_from name b (earlier @ later))) = waits (redial_from name b' later) \<and>
       (earlier = [] \<longrightarrow> b' = b)"
proof (induction earlier arbitrary: b)
  case (Cons a earlier)
  obtain l err where a: "a = (l, err, GoesOn)" using Cons.prems by (cases a) auto
  with Cons show ?case by (auto simp: waits_redial simp del: redial_from.simps)
qed simp

lemma tunnel_Parse_Inr:
  "tunnel_Parse ip_literal env enable modes args = Inr ts \<longleftrightarrow>
     enable = (modes \<noteq> []) \<and>
     distinct (modes_of modes) \<and> set (modes_of modes) \<subseteq> {''link'', ''devtunnel''} \<and>
     (\<forall>name\<in>{''link'', ''devtunnel''}. name \<in> set (modes_of modes) \<longleftrightarrow> args name \<noteq> []) \<and>
     list_all2 (started_as (Transports ip_literal) env args) (sort (modes_of modes)) ts"
proof -
  let ?table = "Transports ip_literal" and ?parts = "split_at_char (CHR '','') modes"
  let ?known = "distinct (modes_of modes) \<and> set (modes_of modes) \<subseteq> {''link'', ''devtunnel''}"
  have names: "list_names ?table modes ?parts (\<lambda>_. False) = Inr listed \<longleftrightarrow>
      ?known \<and> listed = (\<lambda>name. name \<in> set ?parts)" for listed
    unfolding list_names_of Transports_known by blast
  have mem: "name \<in> set ?parts \<longleftrightarrow> name \<in> set (modes_of modes)" if "name \<noteq> []" for name
    using that by (simp add: modes_of_def)
  have known: "\<forall>name\<in>set [''devtunnel'', ''link'']. map_of ?table name \<noteq> None"
    by (simp add: Transports_def)
  show ?thesis
  proof (cases "enable = (modes \<noteq> []) \<and> ?known")
    case False
    then show ?thesis using names
      by (cases "list_names ?table modes ?parts (\<lambda>_. False)") (auto simp: tunnel_Parse_def Let_def)
  next
    case True
    then have "list_names ?table modes ?parts (\<lambda>_. False) = Inr (\<lambda>name. name \<in> set ?parts)"
      by (simp only: names)
    then have parse: "tunnel_Parse ip_literal env enable modes args =
        start_listed ?table env (\<lambda>name. name \<in> set ?parts) args [''devtunnel'', ''link'']"
      using True by (simp add: tunnel_Parse_def Transports_sorted Let_def del: start_listed.simps list_names.simps)
    have sorted: "filter (\<lambda>name. name \<in> set ?parts) [''devtunnel'', ''link''] = sort (modes_of modes)"
      using True by (intro listed_sorted) auto
    show ?thesis
      unfolding parse start_listed_Inr [OF known] sorted using True by (auto simp: mem)
  qed
qed

section \<open>Properties\<close>

text \<open>C30: the transports are accepted exactly when a mode is given with the flag that enables them, each
  name in it is a transport and stands there once, the arguments of exactly these are given, the
  credential of each is in the environment, and each accepts its arguments. There is then one task
  per listed transport, ordered by name, which runs what its transport answered.\<close>

theorem tunnel_Parse_accepts:
  "tunnel_Parse ip_literal env enable modes args = Inr ts \<longleftrightarrow>
     enable = (modes \<noteq> []) \<and>
     distinct (modes_of modes) \<and> set (modes_of modes) \<subseteq> {''link'', ''devtunnel''} \<and>
     (\<forall>name\<in>{''link'', ''devtunnel''}. name \<in> set (modes_of modes) \<longleftrightarrow> args name \<noteq> []) \<and>
     list_all2 (started_as (Transports ip_literal) env args) (sort (modes_of modes)) ts"
  by (rule tunnel_Parse_Inr)

theorem tunnel_Parse_accepts_witness:
  "\<exists>ts. tunnel_Parse (\<lambda>_. False) (\<lambda>_. ''t'') True ''link,devtunnel''
     (\<lambda>name. if name = ''link'' then ''--url wss://plane.example:8443/link?x=1''
       else if name = ''devtunnel'' then ''--id a --cluster use'' else []) = Inr ts \<and> map (Kind \<circ> fst) ts = [''devtunnel'', ''link'']"
proof -
  let ?args = "\<lambda>name. if name = ''link'' then ''--url wss://plane.example:8443/link?x=1''
       else if name = ''devtunnel'' then ''--id a --cluster use'' else []"
  have modes: "modes_of ''link,devtunnel'' = [''link'', ''devtunnel'']" by code_simp
  have sorted: "sort [''link'', ''devtunnel''] = [''devtunnel'', ''link'']" by simp
  obtain l where "link_New (\<lambda>_. False) ''--url wss://plane.example:8443/link?x=1'' ''t'' = Inr l"
    using link_New_url [of "''wss://plane.example:8443/link?x=1''" "\<lambda>_. False" "''t''"] parse_url_examples(1)
    by (simp add: is_space_def)
  moreover obtain d where "devtunnel_New ''--id a --cluster use'' ''t'' = Inr d"
    using devtunnel_New_example by blast
  ultimately have "list_all2 (started_as (Transports (\<lambda>_. False)) (\<lambda>_. ''t'') ?args) [''devtunnel'', ''link'']
      [(transport_task ''devtunnel'', TunnelHost d), (transport_task ''link'', LinkRun l)]"
    by (simp add: started_as_def Transports_def)
  then have "tunnel_Parse (\<lambda>_. False) (\<lambda>_. ''t'') True ''link,devtunnel'' ?args =
      Inr [(transport_task ''devtunnel'', TunnelHost d), (transport_task ''link'', LinkRun l)]"
    unfolding tunnel_Parse_accepts modes sorted by simp
  then show ?thesis by (simp add: transport_task_def zero_task_def)
qed

text \<open>C31: between two attempts a transport waits between a second and a minute. After its first attempt,
  and after any that lasted more than a minute, it waits a second, and then twice as long after
  each shorter attempt, up to a minute. It returns only once its context is done.\<close>

theorem redial_backs_off:
  "(\<forall>b. Waits b \<in> set (redial name done attempts) \<longrightarrow> second \<le> b \<and> b \<le> minute) \<and>
   (Returns \<in> set (redial name done attempts) \<longleftrightarrow> done \<or> (\<exists>a\<in>set attempts. snd (snd a) \<noteq> GoesOn)) \<and>
   ((earlier = [] \<or> lasted > minute) \<and> (\<forall>a\<in>set (earlier @ shorter). snd (snd a) = GoesOn) \<and>
      (\<forall>a\<in>set shorter. fst a \<le> minute) \<longrightarrow>
      drop (length earlier) (waits (redial name False (earlier @ (lasted, err, GoesOn) # shorter))) =
        map (\<lambda>i. min (2 ^ i * second) minute) [0..<Suc (length shorter)])"
proof -
  have m: "0 \<le> second" "second \<le> minute" by (simp_all add: second_def minute_def)
  have bounds: "\<forall>b. Waits b \<in> set (redial name done attempts) \<longrightarrow> second \<le> b \<and> b \<le> minute"
    using redial_wait_bounds [OF _ order_refl m(2)] by (simp add: redial_def)
  have returns: "Returns \<in> set (redial name done attempts) \<longleftrightarrow> done \<or> (\<exists>a\<in>set attempts. snd (snd a) \<noteq> GoesOn)"
    by (auto simp: redial_def redial_returns)
  have doubles: "drop (length earlier) (waits (redial name False (earlier @ (lasted, err, GoesOn) # shorter))) =
      map (\<lambda>i. min (2 ^ i * second) minute) [0..<Suc (length shorter)]"
    if long: "earlier = [] \<or> lasted > minute"
      and goes: "\<forall>a\<in>set (earlier @ shorter). snd (snd a) = GoesOn"
      and short: "\<forall>a\<in>set shorter. fst a \<le> minute"
  proof -
    have tail: "waits (redial_from name b ((lasted, err, GoesOn) # shorter)) =
        map (\<lambda>i. min (2 ^ i * second) minute) [0..<Suc (length shorter)]" if "b = second \<or> lasted > minute" for b
    proof -
      have "next_wait b lasted = second" using that by (auto simp: next_wait_def)
      moreover have "waits (redial_from name second ((0, None, GoesOn) # shorter)) =
          map (\<lambda>i. min (2 ^ i * second) minute) [0..<length ((0, None, GoesOn) # shorter)]"
        using goes short m by (intro waits_of_short_attempts) (auto simp: minute_def second_def)
      moreover have "next_wait second 0 = second" by (simp add: next_wait_def)
      ultimately show ?thesis by (simp only: waits_redial length_Cons)
    qed
    from long goes show ?thesis
      using tail [of second] waits_later [of earlier name second "(lasted, err, GoesOn) # shorter"] tail
      by (auto simp: redial_def)
  qed
  show ?thesis using bounds returns doubles by blast
qed

theorem redial_backs_off_witness:
  "waits (redial ''link'' False (replicate 8 (0, Some ''refused'', GoesOn))) =
     map (\<lambda>i. i * second) [1, 2, 4, 8, 16, 32, 60, 60]"
  using redial_backs_off [of "''link''" False "[]" "[]" 0 "replicate 7 (0, Some ''refused'', GoesOn)" "Some ''refused''"]
  by (simp add: numeral_eq_Suc second_def minute_def upt_rec del: upt_Suc)

end
