(* ===== verification/Sshd.thy ===== *)
theory Sshd
  imports System Copies
begin

text \<open>
  \<^verbatim>\<open>internal/sshd/sshd.go\<close>: the handlers of the SSH server and the guard around each.

  The library's handlers, its comparison of keys and its splitting of a command into words, and
  the peer's requests, come from outside. A function that may panic answers what it panicked
  with, or a value; \<open>run\<close> is one that has lines logged and works on the shared state.
\<close>

section \<open>The guard\<close>

datatype 'a outcome = Panics string | Yields 'a

type_synonym 'a run = "sys \<Rightarrow> 'a outcome \<times> string list \<times> sys"

text \<open>The recovered panic is logged, here without the stack, and its caller goes on with \<open>zero\<close>.\<close>

definition guard :: "string \<Rightarrow> 'a \<Rightarrow> 'a run \<Rightarrow> 'a run" where
  "guard name zero fn s =
     (case fn s of
        (Panics r, logged, s) \<Rightarrow> (Yields zero, logged @ [''sshd: recovered panic in '' @ name @ '': '' @ r], s)
      | (Yields x, logged, s) \<Rightarrow> (Yields x, logged, s))"

section \<open>Commands\<close>

definition exitNeverRan :: int where
  "exitNeverRan = 127"

definition exitSignalled :: int where
  "exitSignalled = 255"

text \<open>
  \<open>exit_code\<close> is that of the process state, \<^const>\<open>None\<close> when the command never started and
  negative when it was signalled. The result is what is written to the session's standard error,
  and the exit status it is given. The command gets the environment of Linkspan itself.
\<close>

definition runCommand :: "env \<Rightarrow> (nat \<Rightarrow> int option) \<Rightarrow> command \<Rightarrow> sys \<Rightarrow> (string \<times> int) \<times> sys" where
  "runCommand e exit_code cmd s =
     (let (err, s) = tasks_Exec e (cmd\<lparr>Env := []\<rparr>) s in
      (case exit_code (tick s) of
         None \<Rightarrow> (''command error: '' @ (case err of Some err \<Rightarrow> err | None \<Rightarrow> ''<nil>'') @ [CHR 0x0A], exitNeverRan)
       | Some c \<Rightarrow> if c < 0 then ([], exitSignalled) else ([], c), s))"

record session =
  User :: string
  RemoteAddr :: string
  RawCommand :: string
  Command :: "string list"

definition session_args :: "session \<Rightarrow> string list" where
  "session_args req = (if length (Command req) > 0 then [''-c'', RawCommand req] else [''-s''])"

definition session_command :: "session \<Rightarrow> command" where
  "session_command req = \<lparr>argv = ''sh'' # session_args req, Dir = [], Env = []\<rparr>"

definition session_handler :: "env \<Rightarrow> (nat \<Rightarrow> int option) \<Rightarrow> session \<Rightarrow> (string \<times> int) option run" where
  "session_handler e exit_code req s =
     (let who = ''user='' @ User req @ '' remote='' @ RemoteAddr req;
          (r, s) = runCommand e exit_code (session_command req) s
      in (Yields (Some r),
          [''sshd: connected '' @ who] @
          (if length (Command req) > 0 then [''sshd: exec '' @ who @ '' cmd='' @ quoted (RawCommand req)] else []) @
          [''sshd: disconnected '' @ who], s))"

section \<open>Streams to a unix socket\<close>

record streamlocal =
  SocketPath :: string
  Reserved0 :: string
  Reserved1 :: "32 word"

datatype channel_end = Rejects string | Abandons string | Forwards string

text \<open>
  The payload is decoded, the socket is dialled and the channel accepted, each of which can fail:
  a socket whose channel is not accepted is closed again.
\<close>

definition handleDirectStreamLocal ::
    "(string \<Rightarrow> string + streamlocal) \<Rightarrow> (nat \<Rightarrow> string \<Rightarrow> string option) \<Rightarrow> (nat \<Rightarrow> bool) \<Rightarrow> env \<Rightarrow>
     string \<Rightarrow> channel_end option run" where
  "handleDirectStreamLocal unmarshal dial_error accepts e extra s =
     (case unmarshal extra of
        Inl err \<Rightarrow> (Yields (Some (Rejects err)), [], s)
      | Inr req \<Rightarrow>
          let logged = [''sshd: streamlocal forward to '' @ SocketPath req]; s = turn e s in
          (case dial_error (tick s) (SocketPath req) of
             Some err \<Rightarrow> (Yields (Some (Rejects err)), logged, s)
           | None \<Rightarrow>
               let s = turn e s in
               (Yields (Some (if accepts (tick s) then Forwards (SocketPath req) else Abandons (SocketPath req))),
                logged, s)))"

text \<open>
  The two copies of a stream between the channel, on the left, and the socket. Whichever ends or
  panics first closes both; the close counts once.
\<close>

definition closeBoth :: "joined \<Rightarrow> joined" where
  "closeBoth s = s\<lparr>left_open := False, right_open := False\<rparr>"

definition streamlocal_step :: "joined \<Rightarrow> joined \<Rightarrow> bool" where
  "streamlocal_step = joined_step closeBoth closeBoth"

interpretation streamlocal_copies: joining closeBoth closeBoth
  by unfold_locales (auto simp: closeBoth_def intro!: exI [of _ False])

section \<open>The server\<close>

text \<open>
  The requests the library hands to the handlers: a session, a channel of one of its own kinds
  with the library's handler for it, and a forwarded unix socket. Serving \<^verbatim>\<open>sftp\<close> can end with an
  error, which may be the end of the input.
\<close>

record library =
  default_session :: "unit run"
  direct_tcpip :: "unit run"
  sftp_serve :: "(string \<times> bool) option run"
  keys_equal :: "string \<Rightarrow> string \<Rightarrow> bool outcome"

record server =
  Handler :: "session \<Rightarrow> unit run"
  PublicKeyHandler :: "string \<Rightarrow> bool run"
  PtyCallback :: bool
  LocalPortForwardingCallback :: "string \<Rightarrow> nat \<Rightarrow> bool \<times> string list"
  ChannelHandlers :: "(string \<times> (string \<Rightarrow> unit run)) list"
  SubsystemHandlers :: "(string \<times> unit run) list"

definition ignoring :: "'a run \<Rightarrow> unit run" where
  "ignoring fn s = (case fn s of (Panics r, rest) \<Rightarrow> (Panics r, rest) | (Yields _, rest) \<Rightarrow> (Yields (), rest))"

definition sftp_handler :: "library \<Rightarrow> unit run" where
  "sftp_handler lib s = (case sftp_serve lib s of
       (Panics r, logged, s) \<Rightarrow> (Panics r, logged, s)
     | (Yields None, logged, s) \<Rightarrow> (Yields (), logged, s)
     | (Yields (Some (err, is_EOF)), logged, s) \<Rightarrow>
         (Yields (), if is_EOF then logged else logged @ [''sshd: sftp: '' @ err], s))"

definition guard_channel :: "string \<times> (string \<Rightarrow> unit run) \<Rightarrow> string \<times> (string \<Rightarrow> unit run)" where
  "guard_channel = (\<lambda>(name, h). (name, \<lambda>extra. guard (''channel '' @ name) () (h extra)))"

definition guard_subsystem :: "string \<times> unit run \<Rightarrow> string \<times> unit run" where
  "guard_subsystem = (\<lambda>(name, h). (name, guard (''handler '' @ name) () h))"

definition unguarded :: "library \<Rightarrow> (string \<Rightarrow> channel_end option run) \<Rightarrow> (session \<Rightarrow> (string \<times> int) option run) \<Rightarrow>
    string \<Rightarrow> server" where
  "unguarded lib stream_local handler key =
     \<lparr>Handler = (\<lambda>req. ignoring (handler req)),
      PublicKeyHandler = (\<lambda>offered s. (keys_equal lib offered key, [], s)),
      PtyCallback = False,
      LocalPortForwardingCallback = (\<lambda>host port.
        (True, [''sshd: port forward to '' @ host @ '':'' @ itoa (int port)])),
      ChannelHandlers = [(''session'', \<lambda>_. default_session lib), (''direct-tcpip'', \<lambda>_. direct_tcpip lib),
        (''direct-streamlocal@openssh.com'', \<lambda>extra. ignoring (stream_local extra))],
      SubsystemHandlers = [(''sftp'', sftp_handler lib)]\<rparr>"

definition sshd_New :: "library \<Rightarrow> (string \<Rightarrow> channel_end option run) \<Rightarrow> (session \<Rightarrow> (string \<times> int) option run) \<Rightarrow>
    string \<Rightarrow> server" where
  "sshd_New lib stream_local handler key =
     (let srv = unguarded lib stream_local handler key in
      srv\<lparr>Handler := (\<lambda>req. guard ''handler session'' () (Handler srv req)),
          PublicKeyHandler := (\<lambda>offered. guard ''public key'' False (PublicKeyHandler srv offered)),
          ChannelHandlers := map guard_channel (ChannelHandlers srv),
          SubsystemHandlers := map guard_subsystem (SubsystemHandlers srv)\<rparr>)"

section \<open>Lemmas\<close>

lemma guard_yields: "\<exists>x logged s'. guard name zero fn s = (Yields x, logged, s')"
  by (simp add: guard_def split: prod.split outcome.split)

lemma guard_never_panics [simp]: "fst (guard name zero fn s) \<noteq> Panics r"
  using guard_yields [of name zero fn s] by auto

lemma guard_key: "fst (guard name False fn s) = Yields True \<longleftrightarrow> fst (fn s) = Yields True"
  by (auto simp: guard_def split: prod.split outcome.split)

lemma closeBoth_once: "closeBoth (closeBoth s) = closeBoth s"
  by (simp add: closeBoth_def)

lemma streamlocal_in_order:
  "reach joined_start streamlocal_step s \<Longrightarrow> \<exists>l r. left_sent s = to_right s @ l \<and> right_sent s = to_left s @ r"
  unfolding streamlocal_step_def by (rule streamlocal_copies.in_order)

lemma streamlocal_both_close:
  "reach joined_start streamlocal_step s \<Longrightarrow> rightward s = Stopped \<or> leftward s = Stopped \<Longrightarrow>
     (copying closeBoth closeBoth ^^ n) s t \<Longrightarrow>
     n \<le> 2 \<and> ((\<exists>u. copying closeBoth closeBoth t u) \<or> \<not> left_open t \<and> \<not> right_open t)"
  unfolding streamlocal_step_def by (rule streamlocal_copies.both_close)

section \<open>Properties\<close>

text \<open>C32: no handler of a server lets a panic through, whatever the library and the peers do: every entry
  of its tables is guarded, under the names the library looks up, and so are the session handler
  and the check of the key. A key is accepted only when the comparison with the server's own key
  said so, never because it panicked, and no terminal is given.\<close>

theorem no_handler_panics:
  "let srv = sshd_New lib stream_local handler key in
    fst (Handler srv req s) \<noteq> Panics r \<and>
    list_all (\<lambda>(name, h). \<forall>extra s r. fst (h extra s) \<noteq> Panics r) (ChannelHandlers srv) \<and>
    map fst (ChannelHandlers srv) = [''session'', ''direct-tcpip'', ''direct-streamlocal@openssh.com''] \<and>
    list_all (\<lambda>(name, h). \<forall>s r. fst (h s) \<noteq> Panics r) (SubsystemHandlers srv) \<and>
    map fst (SubsystemHandlers srv) = [''sftp''] \<and>
    fst (PublicKeyHandler srv offered s) \<noteq> Panics r \<and>
    (fst (PublicKeyHandler srv offered s) = Yields True \<longleftrightarrow> keys_equal lib offered key = Yields True) \<and>
    \<not> PtyCallback srv"
  by (simp add: sshd_New_def unguarded_def guard_channel_def guard_subsystem_def guard_key Let_def)

text \<open>A session is given the exit status of its command, 255 when it was signalled and 127 with a
  message when it never started, and so never a negative one; the command is what the client
  asked \<^verbatim>\<open>sh\<close> to run, or the commands on its input when it asked for none.\<close>

theorem session_reports_the_exit_status:
  "\<exists>logged s'. session_handler e exit_code req s =
     (Yields (Some (case exit_code (tick s') of
        None \<Rightarrow> (''command error: '' @ (case exec_error e (tick (turn e s)) (session_command req) of
            Some err \<Rightarrow> err | None \<Rightarrow> ''<nil>'') @ [CHR 0x0A], 127)
      | Some c \<Rightarrow> ([], if c < 0 then 255 else c))), logged, s') \<and>
     argv (session_command req) = (if Command req = [] then [''sh'', ''-s''] else [''sh'', ''-c'', RawCommand req])"
proof -
  have "session_command req\<lparr>Env := []\<rparr> = session_command req" by (simp add: session_command_def)
  then show ?thesis
    by (simp add: session_handler_def runCommand_def tasks_Exec_def exitNeverRan_def exitSignalled_def
        session_command_def session_args_def Let_def split: option.split)
qed

end
