(* ===== verification/Gpu.thy ===== *)
theory Gpu
  imports System
begin

text \<open>
  \<^verbatim>\<open>internal/usage/gpu.go\<close>: the GPUs NVML sees, their metrics from DCGM or NVML, and the memory of
  each process on them.

  The two libraries are arguments. A call that answers 0 is \<^const>\<open>Some\<close> of what it fills in, or
  \<^const>\<open>True\<close>; any other answer is \<^const>\<open>None\<close> or \<^const>\<open>False\<close>. Every call is made at a time of its
  own, which the answers may depend on. The conversions to \<^verbatim>\<open>float64\<close> are kept as they stand.
\<close>

section \<open>Metrics\<close>

definition metrics :: "(string \<times> 16 word) list" where
  "metrics = [(''utilPct'', 203), (''memUtilPct'', 204), (''memUsedMiB'', 252), (''memTotalMiB'', 250),
     (''powerW'', 155), (''tempC'', 150), (''memTempC'', 140), (''smClockMHz'', 100), (''memClockMHz'', 101),
     (''throttleReasons'', 112), (''eccErrors'', 311), (''energyMJ'', 156), (''xidLast'', 230),
     (''smActive'', 1002), (''smOccupancy'', 1003), (''tensorActive'', 1004), (''dramActive'', 1005),
     (''fp64Active'', 1006), (''fp32Active'', 1007), (''fp16Active'', 1008), (''pcieTxBytesPerSec'', 1009),
     (''pcieRxBytesPerSec'', 1010), (''nvlinkTxBytesPerSec'', 1011), (''nvlinkRxBytesPerSec'', 1012)]"

section \<open>Binding a library\<close>

text \<open>
  What the dynamic linker answers: a library's handle, and a symbol's address in it. \<^verbatim>\<open>bind\<close> gives
  the address each function is registered at, or nothing when one is missing; the functions
  themselves are fields of the records below.
\<close>

record linker =
  dlopen :: "string \<Rightarrow> nat option"
  dlsym :: "nat \<Rightarrow> string \<Rightarrow> nat option"

definition bind :: "linker \<Rightarrow> string \<Rightarrow> string list \<Rightarrow> (string \<times> nat) list option" where
  "bind ld lib fns =
     (case dlopen ld lib of
        None \<Rightarrow> None
      | Some h \<Rightarrow> those (map (\<lambda>name. map_option (Pair name) (dlsym ld h name)) fns))"

definition nvml_functions :: "string list" where
  "nvml_functions = [''nvmlInit_v2'', ''nvmlDeviceGetCount_v2'', ''nvmlDeviceGetHandleByIndex_v2'',
     ''nvmlDeviceGetUUID'', ''nvmlDeviceGetName'', ''nvmlDeviceGetUtilizationRates'',
     ''nvmlDeviceGetMemoryInfo_v2'', ''nvmlDeviceGetPowerUsage'', ''nvmlDeviceGetTemperature'',
     ''nvmlDeviceGetClockInfo'', ''nvmlDeviceGetCurrentClocksEventReasons'', ''nvmlDeviceGetTotalEccErrors'',
     ''nvmlDeviceGetFieldValues'', ''nvmlDeviceGetComputeRunningProcesses_v3'']"

definition dcgm_functions :: "string list" where
  "dcgm_functions = [''dcgmInit'', ''dcgmConnect'', ''dcgmDisconnect'', ''dcgmGetAllSupportedDevices'',
     ''dcgmEntitiesGetLatestValues'', ''dcgmGroupCreate'', ''dcgmGroupAddEntity'', ''dcgmFieldGroupCreate'',
     ''dcgmWatchFields'', ''dcgmUpdateAllFields'']"

section \<open>Readings\<close>

text \<open>
  A \<^verbatim>\<open>float64\<close>: converted from an integer, such a one times 0.001, or read from its bits.
\<close>

datatype float64 = OfInt int | Milli int | OfBits "64 word"

type_synonym readings = "(string \<times> float64) list"

record gpu =
  gpu_index :: nat
  gpu_uuid :: string
  gpu_name :: string
  gpu_handle :: nat

definition cstr :: "string \<Rightarrow> string" where
  "cstr b = takeWhile (\<lambda>c. c \<noteq> CHR 0x00) b"

section \<open>NVML\<close>

record nvmlMemory =
  mem_total :: "64 word"
  mem_used :: "64 word"

record nvmlField =
  field_status :: "32 word"
  field_value :: "64 word"

record nvmlProcess =
  proc_pid :: "32 word"
  proc_used :: "64 word"

record nvml =
  nvml_linker :: linker
  nvml_init :: bool
  nvml_count :: "nat option"
  nvml_handle :: "nat \<Rightarrow> nat option"
  nvml_uuid :: "nat \<Rightarrow> string option"
  nvml_name :: "nat \<Rightarrow> string option"
  nvml_util :: "nat \<Rightarrow> nat \<Rightarrow> (32 word \<times> 32 word) option"
  nvml_memory :: "nat \<Rightarrow> nat \<Rightarrow> nvmlMemory option"
  nvml_field :: "nat \<Rightarrow> nat \<Rightarrow> nvmlField option"
  nvml_power :: "nat \<Rightarrow> nat \<Rightarrow> 32 word option"
  nvml_temp :: "nat \<Rightarrow> nat \<Rightarrow> 32 word option"
  nvml_clock :: "nat \<Rightarrow> nat \<Rightarrow> nat \<Rightarrow> 32 word option"
  nvml_reasons :: "nat \<Rightarrow> nat \<Rightarrow> 64 word option"
  nvml_ecc :: "nat \<Rightarrow> nat \<Rightarrow> 64 word option"
  nvml_procs :: "nat \<Rightarrow> nat \<Rightarrow> nvmlProcess list option"

definition open_gpu :: "nvml \<Rightarrow> nat \<Rightarrow> gpu option" where
  "open_gpu lib i =
     (case nvml_handle lib i of
        None \<Rightarrow> None
      | Some h \<Rightarrow>
         (case (nvml_uuid lib h, nvml_name lib h) of
            (Some u, Some m) \<Rightarrow>
              Some \<lparr>gpu_index = i, gpu_uuid = cstr u, gpu_name = cstr m, gpu_handle = h\<rparr>
          | _ \<Rightarrow> None))"

definition openNVML :: "nvml \<Rightarrow> gpu list" where
  "openNVML lib =
     (if bind (nvml_linker lib) ''libnvidia-ml.so.1'' nvml_functions = None \<or> \<not> nvml_init lib then [] else
      case nvml_count lib of
        None \<Rightarrow> []
      | Some n \<Rightarrow> List.map_filter (open_gpu lib) [0..<n])"

definition scalar :: "('a::len word \<Rightarrow> float64) \<Rightarrow> 'a word option \<Rightarrow> float64 option" where
  "scalar scale answer = map_option scale answer"

definition whole :: "'a::len word \<Rightarrow> float64" where
  "whole v = OfInt (uint v)"

definition nvml_read :: "nvml \<Rightarrow> nat \<Rightarrow> nat \<Rightarrow> readings" where
  "nvml_read lib t h =
     (let util = nvml_util lib t h; mem = nvml_memory lib t h;
          field = (case nvml_field lib t h of
              Some f \<Rightarrow> if field_status f = 0 then Some (field_value f) else None | None \<Rightarrow> None)
      in List.map_filter (\<lambda>(name, r). map_option (Pair name) r)
        [(''utilPct'', map_option (\<lambda>(gpu, mem). whole gpu) util),
         (''memUtilPct'', map_option (\<lambda>(gpu, mem). whole mem) util),
         (''memUsedMiB'', map_option (\<lambda>m. whole (drop_bit 20 (mem_used m))) mem),
         (''memTotalMiB'', map_option (\<lambda>m. whole (drop_bit 20 (mem_total m))) mem),
         (''memTempC'', map_option (\<lambda>v. whole (ucast v :: 32 word)) field),
         (''powerW'', scalar (\<lambda>v. Milli (uint v)) (nvml_power lib t h)),
         (''tempC'', scalar whole (nvml_temp lib t h)),
         (''smClockMHz'', scalar whole (nvml_clock lib t h 1)),
         (''memClockMHz'', scalar whole (nvml_clock lib t h 2)),
         (''throttleReasons'', scalar whole (nvml_reasons lib t h)),
         (''eccErrors'', scalar whole (nvml_ecc lib t h))])"

definition nvml_values :: "nvml \<Rightarrow> nat \<Rightarrow> gpu list \<Rightarrow> string \<Rightarrow> readings" where
  "nvml_values lib t gpus = fold (\<lambda>g out. out(gpu_uuid g := nvml_read lib t (gpu_handle g))) gpus (\<lambda>_. [])"

text \<open>
  The memory of each process in MiB, summed over the GPUs, unless one of them does not answer. A
  process whose memory is not available has all bits set.
\<close>

definition add_process :: "nvmlProcess \<Rightarrow> (int \<Rightarrow> 64 word) \<Rightarrow> int \<Rightarrow> 64 word" where
  "add_process p mem =
     (if proc_used p = not 0 then mem
      else mem(uint (proc_pid p) := mem (uint (proc_pid p)) + drop_bit 20 (proc_used p)))"

fun gpu_mem :: "nvml \<Rightarrow> nat \<Rightarrow> gpu list \<Rightarrow> (int \<Rightarrow> 64 word) \<Rightarrow> (int \<Rightarrow> 64 word) option" where
  "gpu_mem lib t [] mem = Some mem"
| "gpu_mem lib t (g # gpus) mem =
     (case nvml_procs lib t (gpu_handle g) of
        None \<Rightarrow> None
      | Some procs \<Rightarrow> gpu_mem lib t gpus (fold add_process procs mem))"

section \<open>DCGM\<close>

text \<open>
  One value DCGM answers: the entity and the field it says it is of, its kind, its status and the
  bytes. The two kinds read are \<^verbatim>\<open>'d'\<close> and \<^verbatim>\<open>'i'\<close>. \<open>dcgm_latest\<close> is asked for fields of entities under
  a flag and fills in a value at each position.
\<close>

record dcgm_value =
  v_entity :: "32 word"
  v_field :: "16 word"
  v_kind :: "16 word"
  v_status :: int
  v_bytes :: string

record dcgm =
  dcgm_linker :: "nat \<Rightarrow> linker"
  dcgm_initialize :: "nat \<Rightarrow> bool"
  dcgm_connect :: "nat \<Rightarrow> bool"
  dcgm_devices :: "nat \<Rightarrow> 32 word list option"
  dcgm_latest :: "nat \<Rightarrow> 32 word list \<Rightarrow> 16 word list \<Rightarrow> nat \<Rightarrow> (nat \<Rightarrow> dcgm_value) option"
  dcgm_group :: "nat \<Rightarrow> string \<Rightarrow> bool"
  dcgm_add :: "nat \<Rightarrow> 32 word \<Rightarrow> bool"
  dcgm_fieldGroup :: "nat \<Rightarrow> string \<Rightarrow> bool"
  dcgm_watch :: "nat \<Rightarrow> bool"

datatype dcgm_call = Initialize bool | Connects bool | Devices | Latest | Group string | AddEntity "32 word"
  | FieldGroup | Watch | Update | Disconnect

record gpu_state =
  dcgm_loaded :: "bool option"
  opens :: nat
  calls :: "dcgm_call list"
  reader :: "(32 word \<times> string) list option"

definition now :: "gpu_state \<Rightarrow> nat" where
  "now s = length (calls s)"

definition call :: "dcgm_call \<Rightarrow> gpu_state \<Rightarrow> gpu_state" where
  "call c s = s\<lparr>calls := calls s @ [c]\<rparr>"

text \<open>The library is loaded and initialised once; what came of it is kept, a failure too.\<close>

definition loadDCGM :: "dcgm \<Rightarrow> gpu_state \<Rightarrow> bool \<times> gpu_state" where
  "loadDCGM lib s =
     (case dcgm_loaded s of
        Some found \<Rightarrow> (found, s)
      | None \<Rightarrow>
         if bind (dcgm_linker lib (now s)) ''libdcgm.so.4'' dcgm_functions = None then (False, s\<lparr>dcgm_loaded := Some False\<rparr>)
         else let found = dcgm_initialize lib (now s) in (found, call (Initialize found) (s\<lparr>dcgm_loaded := Some found\<rparr>)))"

definition FieldUUID :: "16 word" where
  "FieldUUID = 54"

text \<open>As many values as there are fields of the entities.\<close>

definition dcgm_get :: "dcgm \<Rightarrow> 32 word list \<Rightarrow> 16 word list \<Rightarrow> nat \<Rightarrow> gpu_state \<Rightarrow>
    dcgm_value list option \<times> gpu_state" where
  "dcgm_get lib entities fs flags s =
     (let r = dcgm_latest lib (now s) entities fs flags; s = call Latest s in
      (map_option (\<lambda>value. map value [0..<length entities * length fs]) r, s))"

definition by_uuid :: "dcgm_value list \<Rightarrow> (string \<times> 32 word) list" where
  "by_uuid values = fold (\<lambda>v out.
     if v_status v = 0 then AList.update (cstr (v_bytes v)) (v_entity v) out else out) values []"

fun add_gpus :: "dcgm \<Rightarrow> (string \<times> 32 word) list \<Rightarrow> gpu list \<Rightarrow> gpu_state \<Rightarrow>
    (32 word \<times> string) list option \<times> gpu_state" where
  "add_gpus lib found [] s = (Some [], s)"
| "add_gpus lib found (g # gpus) s =
     (case map_of found (gpu_uuid g) of
        None \<Rightarrow> (None, s)
      | Some n \<Rightarrow>
         (let ok = dcgm_add lib (now s) n; s = call (AddEntity n) s in
          if \<not> ok then (None, s) else
          let (rest, s) = add_gpus lib found gpus s in (map_option (Cons (n, gpu_uuid g)) rest, s)))"

definition fail :: "gpu_state \<Rightarrow> (32 word \<times> string) list option \<times> gpu_state" where
  "fail s = (None, call Disconnect s)"

text \<open>Opening, in its stages: each goes on to the next or disconnects.\<close>

definition watch_gpus :: "dcgm \<Rightarrow> string \<Rightarrow> (string \<times> 32 word) list \<Rightarrow> gpu list \<Rightarrow> gpu_state \<Rightarrow>
    (32 word \<times> string) list option \<times> gpu_state" where
  "watch_gpus lib name found gpus s =
     (let (entities, s) = add_gpus lib found gpus s in
      if entities = None then fail s else
      let ok = dcgm_fieldGroup lib (now s) name; s = call FieldGroup s in
      if \<not> ok then fail s else
      let ok = dcgm_watch lib (now s); s = call Watch s in
      if \<not> ok then fail s else (entities, call Update s))"

definition group_gpus :: "dcgm \<Rightarrow> int \<Rightarrow> 32 word list \<Rightarrow> gpu list \<Rightarrow> gpu_state \<Rightarrow>
    (32 word \<times> string) list option \<times> gpu_state" where
  "group_gpus lib pid ids gpus s =
     (let (values, s) = dcgm_get lib ids [FieldUUID] 1 s;
          found = by_uuid (case values of None \<Rightarrow> [] | Some vs \<Rightarrow> vs);
          s = s\<lparr>opens := Suc (opens s)\<rparr>;
          name = ''linkspan-'' @ itoa pid @ ''-'' @ itoa (int (opens s));
          ok = dcgm_group lib (now s) name; s = call (Group name) s
      in if \<not> ok then fail s else watch_gpus lib name found gpus s)"

definition openDCGM :: "dcgm \<Rightarrow> int \<Rightarrow> gpu list \<Rightarrow> gpu_state \<Rightarrow>
    (32 word \<times> string) list option \<times> gpu_state" where
  "openDCGM lib pid gpus s =
     (let (found, s) = loadDCGM lib s in
      if \<not> found then (None, s) else
      let ok = dcgm_connect lib (now s); s = call (Connects ok) s in
      if \<not> ok then (None, s) else
      let ids = dcgm_devices lib (now s); s = call Devices s in
      if ids = None \<or> ids = Some [] then fail s else group_gpus lib pid (the ids) gpus s)"

text \<open>The bytes in the order of the machine, which has the lowest first.\<close>

definition raw_bits :: "string \<Rightarrow> 64 word" where
  "raw_bits b = word_of_nat (foldr (\<lambda>c n. of_char c + 256 * n) (take 8 b) 0)"

text \<open>
  \<^verbatim>\<open>math.Float64frombits(raw) < 2^47\<close> on the bits: no NaN, and negative or of a smaller magnitude.
  The magnitudes are ordered as their bits are.
\<close>

definition is_nan :: "64 word \<Rightarrow> bool" where
  "is_nan raw \<longleftrightarrow> 0x7FF0000000000000 < take_bit 63 raw"

definition below_FP64Blank :: "64 word \<Rightarrow> bool" where
  "below_FP64Blank raw \<longleftrightarrow> \<not> is_nan raw \<and> (bit raw 63 \<or> raw < 0x42E0000000000000)"

definition Int64Blank :: int where
  "Int64Blank = 0x7ffffffffffffff0"

definition reading :: "dcgm_value \<Rightarrow> float64 option" where
  "reading v =
     (let raw = raw_bits (v_bytes v) in
      if v_status v \<noteq> 0 then None
      else if v_kind v = 100 then (if below_FP64Blank raw then Some (OfBits raw) else None)
      else if v_kind v = 105 then (if sint raw < Int64Blank then Some (OfInt (sint raw)) else None)
      else None)"

definition metric_key :: "16 word \<Rightarrow> string" where
  "metric_key f = (case map_of (map prod.swap metrics) f of Some name \<Rightarrow> name | None \<Rightarrow> [])"

text \<open>
  The readings of each uuid. An entity that is none of the reader's has the empty uuid, and storing
  under a uuid that has no map is a panic, here \<^const>\<open>None\<close>.
\<close>

definition uuid_of :: "(32 word \<times> string) list \<Rightarrow> 32 word \<Rightarrow> string" where
  "uuid_of entities n = (case map_of (rev entities) n of Some u \<Rightarrow> u | None \<Rightarrow> [])"

definition no_readings :: "(32 word \<times> string) list \<Rightarrow> string \<Rightarrow> readings option" where
  "no_readings entities u = (if list_ex (\<lambda>(n, _). uuid_of entities n = u) entities then Some [] else None)"

definition store_value :: "(32 word \<times> string) list \<Rightarrow> dcgm_value \<Rightarrow>
    (string \<Rightarrow> readings option) \<Rightarrow> (string \<Rightarrow> readings option) option" where
  "store_value entities v out =
     (case reading v of
        None \<Rightarrow> Some out
      | Some x \<Rightarrow>
          let u = uuid_of entities (v_entity v) in
          map_option (\<lambda>r. out(u \<mapsto> AList.update (metric_key (v_field v)) x r)) (out u))"

fun store_values :: "(32 word \<times> string) list \<Rightarrow> dcgm_value list \<Rightarrow>
    (string \<Rightarrow> readings option) \<Rightarrow> (string \<Rightarrow> readings option) option" where
  "store_values entities [] out = Some out"
| "store_values entities (v # vs) out =
     (case store_value entities v out of None \<Rightarrow> None | Some out \<Rightarrow> store_values entities vs out)"

datatype dcgm_reading = NoValues | Values "string \<Rightarrow> readings option" | ReadPanics

definition dcgm_read :: "dcgm \<Rightarrow> (32 word \<times> string) list \<Rightarrow> gpu_state \<Rightarrow> dcgm_reading \<times> gpu_state" where
  "dcgm_read lib entities s =
     (let (values, s) = dcgm_get lib (map fst entities) (map snd metrics) 0 s in
      case values of
        None \<Rightarrow> (NoValues, call Disconnect s)
      | Some vs \<Rightarrow>
         (case store_values entities vs (no_readings entities) of
            None \<Rightarrow> (ReadPanics, s)
          | Some out \<Rightarrow> (Values out, s)))"

section \<open>\<^verbatim>\<open>openGPUs\<close>\<close>

datatype gpu_json = GInt int | GText string | GFloat float64 | GNull

type_synonym entry_json = "(string \<times> gpu_json) list"

definition gpu_entry :: "readings \<Rightarrow> gpu \<Rightarrow> entry_json" where
  "gpu_entry values g =
     fold (\<lambda>(k, x). AList.update k (GFloat x)) values
       (fold (\<lambda>(k, f). AList.update k GNull) metrics
         [(''index'', GInt (int (gpu_index g))), (''uuid'', GText (gpu_uuid g)), (''name'', GText (gpu_name g))])"

definition gpu_entries :: "string \<Rightarrow> gpu list \<Rightarrow> (string \<Rightarrow> readings) \<Rightarrow> string option \<times> entry_json list" where
  "gpu_entries source gpus values = (Some source, map (\<lambda>g. gpu_entry (values (gpu_uuid g)) g) gpus)"

definition open_reader :: "dcgm \<Rightarrow> int \<Rightarrow> gpu list \<Rightarrow> gpu_state \<Rightarrow> gpu_state" where
  "open_reader lib pid gpus s = (let (r, s) = openDCGM lib pid gpus s in s\<lparr>reader := r\<rparr>)"

text \<open>
  What each sample answers, and what it leaves; without GPUs nothing is opened. A panic, here
  \<^const>\<open>None\<close>, is not recovered from.
\<close>

definition sample_gpus :: "dcgm \<Rightarrow> nvml \<Rightarrow> int \<Rightarrow> nat \<Rightarrow> gpu_state \<Rightarrow>
    (string option \<times> entry_json list) option \<times> gpu_state" where
  "sample_gpus lib nv pid t s =
     (let gpus = openNVML nv in
      if gpus = [] then (Some (None, []), s) else
      let (values, s) = (case reader s of None \<Rightarrow> (NoValues, s) | Some entities \<Rightarrow> dcgm_read lib entities s) in
      case values of
        ReadPanics \<Rightarrow> (None, s)
      | Values out \<Rightarrow> (Some (gpu_entries ''dcgm'' gpus (\<lambda>u. case out u of Some r \<Rightarrow> r | None \<Rightarrow> [])), s)
      | NoValues \<Rightarrow> (Some (gpu_entries ''nvml'' gpus (nvml_values nv t gpus)), open_reader lib pid gpus s))"

definition sample_gpu_mem :: "nvml \<Rightarrow> nat \<Rightarrow> (int \<Rightarrow> 64 word) option" where
  "sample_gpu_mem nv t = gpu_mem nv t (openNVML nv) (\<lambda>_. 0)"

definition openGPUs :: "dcgm \<Rightarrow> nvml \<Rightarrow> int \<Rightarrow> gpu_state" where
  "openGPUs lib nv pid =
     (let s = \<lparr>dcgm_loaded = None, opens = 0, calls = [], reader = None\<rparr> in
      if openNVML nv = [] then s else open_reader lib pid (openNVML nv) s)"

section \<open>The protocol of a connection\<close>

text \<open>
  Whether a connection is open after some calls: one is made only when none is, and every other
  call is made over an open one. \<^const>\<open>None\<close> says that the calls do not keep to this.
\<close>

fun connected :: "bool \<Rightarrow> dcgm_call list \<Rightarrow> bool option" where
  "connected b [] = Some b"
| "connected b (c # cs) =
     (case c of
        Initialize ok \<Rightarrow> if b then None else connected b cs
      | Connects ok \<Rightarrow> if b then None else connected ok cs
      | Disconnect \<Rightarrow> if b then connected False cs else None
      | _ \<Rightarrow> if b then connected b cs else None)"

definition initializations :: "gpu_state \<Rightarrow> nat" where
  "initializations s = length (filter (\<lambda>c. c \<in> range Initialize) (calls s))"

text \<open>The library is initialised only while it is loaded, which happens once.\<close>

definition loaded_once :: "gpu_state \<Rightarrow> bool" where
  "loaded_once s \<longleftrightarrow> initializations s \<le> (if dcgm_loaded s = None then 0 else 1)"

definition connection :: "gpu_state \<Rightarrow> bool option" where
  "connection s = (if loaded_once s then connected False (calls s) else None)"

definition opened :: "'a option \<Rightarrow> bool" where
  "opened r \<longleftrightarrow> r \<noteq> None"

lemma opened_simps [simp]: "\<not> opened None" "opened (Some x)"
  by (simp_all add: opened_def)

lemma connected_append: "connected b (cs @ ds) = (case connected b cs of None \<Rightarrow> None | Some b' \<Rightarrow> connected b' ds)"
  by (induction b cs rule: connected.induct) (simp_all split: dcgm_call.split)

lemma connection_call:
  "c \<notin> range Initialize \<Longrightarrow>
     connection (call c s) = (case connection s of None \<Rightarrow> None | Some b \<Rightarrow> connected b [c])"
  by (simp add: connection_def loaded_once_def initializations_def call_def connected_append)

lemma connection_frame [simp]:
  "connection (s\<lparr>opens := n\<rparr>) = connection s" "connection (s\<lparr>reader := r\<rparr>) = connection s"
  by (simp_all add: connection_def loaded_once_def initializations_def)

lemma connection_open [simp]:
  "connection s = Some True \<Longrightarrow> c \<noteq> Disconnect \<Longrightarrow> \<forall>ok. c \<noteq> Connects ok \<and> c \<noteq> Initialize ok \<Longrightarrow>
     connection (call c s) = Some True"
  "connection s = Some True \<Longrightarrow> connection (call Disconnect s) = Some False"
  "connection s = Some False \<Longrightarrow> connection (call (Connects ok) s) = Some ok"
  by (auto simp: connection_call image_iff split: dcgm_call.split)

lemma loadDCGM_connection:
  assumes "connection s = Some False" and "loadDCGM lib s = (found, s')"
  shows "connection s' = Some False"
  using assms
  by (auto simp: loadDCGM_def connection_def loaded_once_def initializations_def call_def connected_append Let_def
      split: option.splits if_splits)

lemma add_gpus_connection:
  "connection s = Some True \<Longrightarrow> connection (snd (add_gpus lib found gpus s)) = Some True"
proof (induction gpus arbitrary: s)
  case (Cons g gpus)
  show ?case
  proof (cases "map_of found (gpu_uuid g)")
    case (Some n)
    obtain rest s1 where rest: "add_gpus lib found gpus (call (AddEntity n) s) = (rest, s1)" by (rule prod.exhaust)
    have "connection (call (AddEntity n) s) = Some True" using Cons.prems by simp
    from Cons.IH [OF this] rest this Some show ?thesis by (simp add: Let_def)
  qed (use Cons.prems in simp)
qed simp

lemma dcgm_get_connection:
  "connection s = Some True \<Longrightarrow> connection (snd (dcgm_get lib entities fs flags s)) = Some True"
  by (simp add: dcgm_get_def Let_def)

lemma fail_connection: "connection s = Some True \<Longrightarrow> fail s = (r, s') \<Longrightarrow> connection s' = Some (opened r)"
  by (auto simp: fail_def)

lemma watch_gpus_connection:
  assumes "connection s = Some True" and "watch_gpus lib name found gpus s = (r, s')"
  shows "connection s' = Some (opened r)"
proof -
  obtain entities s1 where "add_gpus lib found gpus s = (entities, s1)" by (rule prod.exhaust)
  with assms add_gpus_connection [OF assms(1), of lib found gpus] show ?thesis
    by (auto simp: watch_gpus_def Let_def elim!: fail_connection [rotated] split: if_splits)
qed

lemma group_gpus_connection:
  assumes "connection s = Some True" and "group_gpus lib pid ids gpus s = (r, s')"
  shows "connection s' = Some (opened r)"
proof -
  obtain vs s1 where "dcgm_get lib ids [FieldUUID] 1 s = (vs, s1)" by (rule prod.exhaust)
  with assms dcgm_get_connection [OF assms(1), of lib ids "[FieldUUID]" 1] show ?thesis
    by (auto simp: group_gpus_def Let_def elim!: fail_connection [rotated] watch_gpus_connection [rotated] split: if_splits)
qed

lemma openDCGM_connection:
  assumes "connection s = Some False" and "openDCGM lib pid gpus s = (r, s')"
  shows "connection s' = Some (opened r)"
proof -
  obtain found s1 where load: "loadDCGM lib s = (found, s1)" by (rule prod.exhaust)
  from assms(2) loadDCGM_connection [OF assms(1) load] show ?thesis
    by (auto simp: openDCGM_def load Let_def elim!: fail_connection [rotated] group_gpus_connection [rotated] split: if_splits)
qed

lemma dcgm_read_connection:
  assumes "connection s = Some True" and "dcgm_read lib entities s = (r, s')"
  shows "connection s' = Some (r \<noteq> NoValues)"
proof -
  obtain vs s1 where "dcgm_get lib (map fst entities) (map snd metrics) 0 s = (vs, s1)" by (rule prod.exhaust)
  with assms dcgm_get_connection [OF assms(1), of lib "map fst entities" "map snd metrics" 0] show ?thesis
    by (auto simp: dcgm_read_def Let_def split: option.splits)
qed

lemma dcgm_read_reader: "dcgm_read lib entities s = (r, s') \<Longrightarrow> reader s' = reader s"
  by (auto simp: dcgm_read_def dcgm_get_def call_def Let_def split: option.splits)

definition connected_as_read :: "gpu_state \<Rightarrow> bool" where
  "connected_as_read s \<longleftrightarrow> connection s = Some (opened (reader s))"

lemma open_reader_connected:
  "connection s = Some False \<Longrightarrow> connected_as_read (open_reader lib pid gpus s)"
  by (auto simp: connected_as_read_def open_reader_def dest: openDCGM_connection split: prod.split)

lemma openGPUs_connected: "connected_as_read (openGPUs lib nv pid)"
proof (cases "openNVML nv = []")
  case False
  then show ?thesis by (simp add: openGPUs_def open_reader_connected connection_def loaded_once_def initializations_def)
qed (simp add: openGPUs_def connected_as_read_def connection_def loaded_once_def initializations_def)

lemma sample_gpus_connected:
  assumes "connected_as_read s"
  shows "connected_as_read (snd (sample_gpus lib nv pid t s))"
proof (cases "openNVML nv = [] \<or> reader s = None")
  case True
  then show ?thesis using assms
    by (cases "openNVML nv = []")
      (simp_all add: sample_gpus_def Let_def connected_as_read_def open_reader_connected [unfolded connected_as_read_def])
next
  case False
  then obtain entities where reader: "reader s = Some entities" by auto
  obtain r s1 where read: "dcgm_read lib entities s = (r, s1)" by (rule prod.exhaust)
  from assms reader have "connection s = Some True" by (simp add: connected_as_read_def)
  note s1 = dcgm_read_connection [OF this read]
  with False reader read dcgm_read_reader [OF read] show ?thesis
    by (cases r) (simp_all add: sample_gpus_def Let_def connected_as_read_def
        open_reader_connected [unfolded connected_as_read_def])
qed

definition run_samples :: "dcgm \<Rightarrow> nvml \<Rightarrow> int \<Rightarrow> nat list \<Rightarrow> gpu_state" where
  "run_samples lib nv pid ts = fold (\<lambda>t s. snd (sample_gpus lib nv pid t s)) ts (openGPUs lib nv pid)"

lemma run_samples_connected: "connected_as_read (run_samples lib nv pid ts)"
proof -
  have "connected_as_read s \<Longrightarrow> connected_as_read (fold (\<lambda>t s. snd (sample_gpus lib nv pid t s)) ts s)" for s
    by (induction ts arbitrary: s) (simp_all add: sample_gpus_connected)
  then show ?thesis by (simp add: run_samples_def openGPUs_connected)
qed

section \<open>The keys of an entry\<close>

definition metric_keys :: "readings \<Rightarrow> bool" where
  "metric_keys values \<longleftrightarrow> fst ` set values \<subseteq> fst ` set metrics"

lemma metric_keys_Nil [simp]: "metric_keys []"
  by (simp add: metric_keys_def)

lemma fold_update_keys:
  "map fst (fold (\<lambda>(k, x). AList.update k (f x)) xs al) = map fst al"
  if "fst ` set xs \<subseteq> fst ` set al"
  using that
proof (induction xs arbitrary: al)
  case (Cons x xs)
  have "map fst (AList.update (fst x) (f (snd x)) al) = map fst al"
    using Cons.prems by (auto simp: AList.update_keys)
  then have "fst ` set xs \<subseteq> fst ` set (AList.update (fst x) (f (snd x)) al)"
    using Cons.prems by (metis (no_types) image_subset_iff list.set_intros(2) list.set_map)
  with Cons.IH [OF this] \<open>map fst (AList.update (fst x) (f (snd x)) al) = map fst al\<close> show ?case
    by (simp add: case_prod_beta)
qed simp

lemma entry_keys:
  assumes "metric_keys values"
  shows "map fst (gpu_entry values g) = [''index'', ''uuid'', ''name''] @ map fst metrics"
proof -
  let ?e = "fold (\<lambda>(k, f). AList.update k GNull) metrics
    [(''index'', GInt (int (gpu_index g))), (''uuid'', GText (gpu_uuid g)), (''name'', GText (gpu_name g))]"
  have keys: "map fst ?e = [''index'', ''uuid'', ''name''] @ map fst metrics"
    by (simp add: metrics_def)
  then have "fst ` set ?e = set ([''index'', ''uuid'', ''name''] @ map fst metrics)"
    by (metis list.set_map)
  with assms have "fst ` set values \<subseteq> fst ` set ?e" by (auto simp: metric_keys_def)
  from fold_update_keys [OF this, of GFloat] keys show ?thesis by (simp add: gpu_entry_def)
qed

lemma map_filter_keys: "fst ` set (List.map_filter (\<lambda>(name, r). map_option (Pair name) r) xs) \<subseteq> set (map fst xs)"
  by (force simp: map_filter_def)

lemma nvml_keys: "metric_keys (nvml_values nv t gpus u)"
proof -
  have read: "metric_keys (nvml_read nv t h)" for h
    unfolding metric_keys_def nvml_read_def Let_def
    by (rule subset_trans [OF map_filter_keys]) (simp add: metrics_def)
  have "metric_keys (out u) \<Longrightarrow> metric_keys (fold (\<lambda>g out. out(gpu_uuid g := nvml_read nv t (gpu_handle g))) gpus out u)" for out
    by (induction gpus arbitrary: out) (simp_all add: read)
  from this [of "\<lambda>_. []"] show ?thesis by (simp add: nvml_values_def metric_keys_def)
qed

lemma metric_key_known: "f \<in> snd ` set metrics \<Longrightarrow> metric_key f \<in> fst ` set metrics"
proof -
  assume "f \<in> snd ` set metrics"
  then have "f \<in> fst ` set (map prod.swap metrics)" by (simp add: image_image)
  then obtain name where name: "map_of (map prod.swap metrics) f = Some name"
    by (cases "map_of (map prod.swap metrics) f") (auto simp: map_of_eq_None_iff simp del: set_map)
  then have "(f, name) \<in> set (map prod.swap metrics)" by (rule map_of_SomeD)
  then have "(name, f) \<in> set metrics" by auto
  with name show ?thesis by (force simp: metric_key_def)
qed

text \<open>
  What DCGM documents of the values it answers: each is of an entity and a field it was asked for.
\<close>

definition answers_as_asked :: "dcgm \<Rightarrow> bool" where
  "answers_as_asked lib \<longleftrightarrow> (\<forall>t es fs flags value i. dcgm_latest lib t es fs flags = Some value \<longrightarrow>
     i < length es * length fs \<longrightarrow> v_entity (value i) \<in> set es \<and> v_field (value i) \<in> set fs)"

definition stored :: "(32 word \<times> string) list \<Rightarrow> (string \<Rightarrow> readings option) \<Rightarrow> bool" where
  "stored entities out \<longleftrightarrow> (\<forall>n\<in>fst ` set entities. out (uuid_of entities n) \<noteq> None) \<and>
     (\<forall>u r. out u = Some r \<longrightarrow> metric_keys r)"

lemma stored_none: "stored entities (no_readings entities)"
  by (auto simp: stored_def no_readings_def list_ex_iff split: if_splits)

lemma store_value_stored:
  assumes "stored entities out" and "v_entity v \<in> fst ` set entities" and "v_field v \<in> snd ` set metrics"
  shows "\<exists>out'. store_value entities v out = Some out' \<and> stored entities out'"
proof -
  obtain r where r: "out (uuid_of entities (v_entity v)) = Some r" using assms(1,2) by (auto simp: stored_def)
  then have "metric_keys (AList.update (metric_key (v_field v)) x r)" for x
    using assms(1) metric_key_known [OF assms(3)]
    by (simp add: stored_def metric_keys_def update_keys [unfolded set_map])
  with r assms(1) show ?thesis
    by (auto simp: store_value_def stored_def Let_def split: option.split)
qed

lemma store_values_stored:
  assumes "stored entities out" and "\<forall>v\<in>set vs. v_entity v \<in> fst ` set entities \<and> v_field v \<in> snd ` set metrics"
  shows "\<exists>out'. store_values entities vs out = Some out' \<and> stored entities out'"
  using assms
proof (induction vs arbitrary: out)
  case (Cons v vs)
  with store_value_stored [of entities out v] obtain out' where
    "store_value entities v out = Some out'" "stored entities out'" by auto
  with Cons show ?case by simp
qed simp

lemma dcgm_keys:
  assumes "answers_as_asked lib" and "dcgm_read lib entities s = (r, s')"
  shows "r \<noteq> ReadPanics \<and> (\<forall>out u. r = Values out \<longrightarrow> metric_keys (case out u of Some r \<Rightarrow> r | None \<Rightarrow> []))"
proof (cases "dcgm_latest lib (now s) (map fst entities) (map snd metrics) 0")
  case None
  with assms(2) show ?thesis by (auto simp: dcgm_read_def dcgm_get_def Let_def)
next
  case (Some answer)
  let ?vs = "map answer [0..<length entities * length metrics]"
  have "\<forall>v\<in>set ?vs. v_entity v \<in> fst ` set entities \<and> v_field v \<in> snd ` set metrics"
    using assms(1) Some unfolding answers_as_asked_def by (auto; metis length_map list.set_map)
  from store_values_stored [OF stored_none this] obtain out where
    "store_values entities ?vs (no_readings entities) = Some out" "stored entities out" by blast
  with Some assms(2) show ?thesis
    by (auto simp: dcgm_read_def dcgm_get_def Let_def stored_def split: option.split)
qed

lemma fold_update_other:
  "k \<notin> fst ` set xs \<Longrightarrow> map_of (fold (\<lambda>(k, x). AList.update k (f x)) xs al) k = map_of al k"
  by (induction xs arbitrary: al) (auto simp: assoc_update)

definition gpu_identity :: "gpu \<Rightarrow> entry_json" where
  "gpu_identity g =
     [(''index'', GInt (int (gpu_index g))), (''uuid'', GText (gpu_uuid g)), (''name'', GText (gpu_name g))]"

lemma entry_identity:
  assumes "metric_keys values" and "k \<in> fst ` set (gpu_identity g)"
  shows "map_of (gpu_entry values g) k = map_of (gpu_identity g) k"
proof -
  have "k \<notin> fst ` set metrics" using assms(2) by (auto simp: gpu_identity_def metrics_def)
  moreover from this have "k \<notin> fst ` set values" using assms(1) by (auto simp: metric_keys_def)
  ultimately show ?thesis
    by (simp add: gpu_entry_def gpu_identity_def [symmetric] fold_update_other)
qed

definition entry_of :: "gpu \<Rightarrow> entry_json \<Rightarrow> bool" where
  "entry_of g entry \<longleftrightarrow> map fst entry = [''index'', ''uuid'', ''name''] @ map fst metrics \<and>
     (\<forall>k\<in>fst ` set (gpu_identity g). map_of entry k = map_of (gpu_identity g) k)"

lemma entry_of_length: "entry_of g entry \<Longrightarrow> length entry = 27"
proof -
  assume "entry_of g entry"
  then have "length (map fst entry) = length ([''index'', ''uuid'', ''name''] @ map fst metrics)"
    unfolding entry_of_def by metis
  then show ?thesis by (simp add: metrics_def)
qed

lemma gpu_entries_keys:
  assumes "\<And>u. metric_keys (values u)"
  shows "list_all2 entry_of gpus (snd (gpu_entries source gpus values))"
  by (simp add: gpu_entries_def list_all2_conv_all_nth entry_of_def entry_keys [OF assms] entry_identity [OF assms])

section \<open>The blank values\<close>

text \<open>
  What a finite double stands for, times \<open>2 ^ 1075\<close>: its fraction has 52 bits, its exponent 11.
\<close>

definition fraction :: "64 word \<Rightarrow> nat" where
  "fraction raw = unat raw mod 2 ^ 52"

definition exponent :: "64 word \<Rightarrow> nat" where
  "exponent raw = unat raw div 2 ^ 52 mod 2 ^ 11"

definition scaled_value :: "64 word \<Rightarrow> int" where
  "scaled_value raw =
     (let m = (if exponent raw = 0 then 2 * int (fraction raw)
               else (2 ^ 52 + int (fraction raw)) * 2 ^ exponent raw)
      in if bit raw 63 then - m else m)"

lemma magnitude_bits: "unat (take_bit 63 raw) = exponent raw * 2 ^ 52 + fraction raw" for raw :: "64 word"
proof -
  have "unat (take_bit 63 raw) = unat raw mod (2 ^ 52 * 2 ^ 11)"
    unfolding unsigned_take_bit_eq by (simp add: take_bit_eq_mod)
  also have "\<dots> = exponent raw * 2 ^ 52 + fraction raw"
    unfolding mod_mult2_eq exponent_def fraction_def by (rule arg_cong2 [OF mult.commute refl])
  finally show ?thesis .
qed

lemma positive_bits: "\<not> bit raw 63 \<Longrightarrow> take_bit 63 raw = (raw :: 64 word)"
  by (rule bit_word_eqI) (auto simp: bit_take_bit_iff less_Suc_eq numeral_eq_Suc)

lemma scaled_below:
  assumes "m < 2 ^ 52"
  shows "e * 2 ^ 52 + m < 1070 * 2 ^ 52 \<longleftrightarrow>
    (if e = 0 then 2 * int m else (2 ^ 52 + int m) * 2 ^ e) < 2 ^ 47 * 2 ^ 1075"
proof (cases "e < 1070")
  case True
  have "int m < 2 ^ 52" using assms by simp
  then have "(2 ^ 52 + int m) * 2 ^ e < 2 ^ 53 * 2 ^ e" by simp
  also have "\<dots> \<le> 2 ^ 53 * (2 :: int) ^ 1069"
    using True by (intro mult_left_mono power_increasing) auto
  finally have "(2 ^ 52 + int m) * 2 ^ e < 2 ^ 47 * 2 ^ 1075" by simp
  moreover have "e * 2 ^ 52 + m < 1070 * 2 ^ 52"
  proof -
    have "e * 2 ^ 52 \<le> 1069 * 2 ^ 52" using True by simp
    with assms show ?thesis by linarith
  qed
  moreover have "2 * int m < 2 ^ 47 * 2 ^ 1075" using assms by simp
  ultimately show ?thesis by simp
next
  case False
  then have "2 ^ 52 * (2 :: int) ^ 1070 \<le> (2 ^ 52 + int m) * 2 ^ e"
    by (intro mult_mono power_increasing) auto
  then have "\<not> (2 ^ 52 + int m) * 2 ^ e < 2 ^ 47 * 2 ^ 1075" by simp
  with False show ?thesis by simp
qed

lemma below_FP64Blank_value:
  assumes "exponent raw < 2047"
  shows "below_FP64Blank raw \<longleftrightarrow> scaled_value raw < 2 ^ 47 * 2 ^ 1075"
proof -
  have f: "fraction raw < 2 ^ 52" by (simp add: fraction_def)
  have "exponent raw * 2 ^ 52 + fraction raw < 2047 * 2 ^ 52"
  proof -
    have "exponent raw * 2 ^ 52 \<le> 2046 * 2 ^ 52" using assms by simp
    with f show ?thesis by linarith
  qed
  then have nan: "\<not> is_nan raw"
    by (simp add: is_nan_def word_less_nat_alt magnitude_bits)
  show ?thesis
  proof (cases "bit raw 63")
    case True
    have "scaled_value raw \<le> 0" using True by (simp add: scaled_value_def Let_def)
    also have "0 < 2 ^ 47 * (2 :: int) ^ 1075" by simp
    finally show ?thesis using True nan by (simp add: below_FP64Blank_def)
  next
    case False
    have "unat raw = exponent raw * 2 ^ 52 + fraction raw"
      using magnitude_bits [of raw] by (simp add: positive_bits [OF False])
    then have "raw < 0x42E0000000000000 \<longleftrightarrow> exponent raw * 2 ^ 52 + fraction raw < 1070 * 2 ^ 52"
      by (simp add: word_less_nat_alt)
    then show ?thesis
      using False nan scaled_below [OF f, of "exponent raw"]
      by (simp add: below_FP64Blank_def scaled_value_def Let_def)
  qed
qed

section \<open>Properties\<close>

text \<open>C34: every connection to DCGM that is made is used and closed in turn, over any samples and whatever
  the library answers at any call: none is made while one is open, no other call is made when
  none is, and one is open after a sample exactly when there is a reader for the next. The library
  is initialised at most once.\<close>

theorem DCGM_connections_are_closed:
  "connected False (calls (run_samples lib nv pid ts)) = Some (reader (run_samples lib nv pid ts) \<noteq> None) \<and>
   initializations (run_samples lib nv pid ts) \<le> 1"
  using run_samples_connected [of lib nv pid ts]
  by (auto simp: connected_as_read_def connection_def opened_def loaded_once_def split: if_splits)

lemma sample_gpus_entries:
  assumes "answers_as_asked lib"
  shows "\<exists>source entries. fst (sample_gpus lib nv pid t s) = Some (source, entries) \<and>
    list_all2 entry_of (openNVML nv) entries \<and> (source = None \<longleftrightarrow> openNVML nv = [])"
proof (cases "openNVML nv = []")
  case True
  then show ?thesis by (simp add: sample_gpus_def)
next
  case False
  obtain vs s1 where v: "(case reader s of None \<Rightarrow> (NoValues, s) | Some entities \<Rightarrow> dcgm_read lib entities s) = (vs, s1)"
    by (rule prod.exhaust)
  then have no_panic: "vs \<noteq> ReadPanics \<and> (\<forall>out u. vs = Values out \<longrightarrow> metric_keys (case out u of Some r \<Rightarrow> r | None \<Rightarrow> []))"
    by (cases "reader s") (simp_all add: dcgm_keys [OF assms])
  then have dcgm: "list_all2 entry_of (openNVML nv) (snd (gpu_entries ''dcgm'' (openNVML nv)
      (\<lambda>u. case out u of Some r \<Rightarrow> r | None \<Rightarrow> [])))" if "vs = Values out" for out
    using that by (intro gpu_entries_keys) simp
  have "list_all2 entry_of (openNVML nv) (snd (gpu_entries ''nvml'' (openNVML nv) (nvml_values nv t (openNVML nv))))"
    by (intro gpu_entries_keys nvml_keys)
  with v False dcgm no_panic show ?thesis
    by (cases vs) (simp_all add: sample_gpus_def gpu_entries_def Let_def)
qed

text \<open>C35: when DCGM answers of what it is asked, a sample lists each GPU that NVML sees once and in its
  order, with its index, uuid and name and every metric's key, whichever of the two libraries the
  metrics are from and whatever it leaves out; without GPUs there is no source and nothing is
  listed. No sample panics.\<close>

theorem every_GPU_has_every_key:
  assumes "answers_as_asked lib"
  shows "\<exists>source entries. fst (sample_gpus lib nv pid t s) = Some (source, entries) \<and>
     list_all2 entry_of (openNVML nv) entries \<and> (source = None \<longleftrightarrow> openNVML nv = []) \<and>
     list_all (\<lambda>entry. length entry = 27) entries"
proof -
  from sample_gpus_entries [OF assms, of nv pid t s] obtain source entries where
    r: "fst (sample_gpus lib nv pid t s) = Some (source, entries)" "list_all2 entry_of (openNVML nv) entries"
      "source = None \<longleftrightarrow> openNVML nv = []" by blast
  then have "list_all (\<lambda>entry. length entry = 27) entries"
    using entry_of_length by (fastforce simp: list_all_length list_all2_conv_all_nth)
  with r show ?thesis by blast
qed

text \<open>A node with one GPU whose two libraries are found, and DCGM answering of all it is asked.\<close>

definition demo_linker :: linker where
  "demo_linker = \<lparr>dlopen = (\<lambda>_. Some 1), dlsym = (\<lambda>_ _. Some 1)\<rparr>"

definition demo_nvml :: nvml where
  "demo_nvml = \<lparr>nvml_linker = demo_linker, nvml_init = True, nvml_count = Some 1, nvml_handle = (\<lambda>_. Some 0),
     nvml_uuid = (\<lambda>_. Some ''GPU-a''), nvml_name = (\<lambda>_. Some ''A100''), nvml_util = (\<lambda>_ _. None),
     nvml_memory = (\<lambda>_ _. None), nvml_field = (\<lambda>_ _. None), nvml_power = (\<lambda>_ _. None), nvml_temp = (\<lambda>_ _. None),
     nvml_clock = (\<lambda>_ _ _. None), nvml_reasons = (\<lambda>_ _. None), nvml_ecc = (\<lambda>_ _. None), nvml_procs = (\<lambda>_ _. None)\<rparr>"

definition demo_dcgm :: dcgm where
  "demo_dcgm = \<lparr>dcgm_linker = (\<lambda>_. demo_linker), dcgm_initialize = (\<lambda>_. True), dcgm_connect = (\<lambda>_. True),
     dcgm_devices = (\<lambda>_. Some [0]),
     dcgm_latest = (\<lambda>t es fs flags. Some (\<lambda>i. \<lparr>v_entity = es ! (i div length fs), v_field = fs ! (i mod length fs),
       v_kind = 105, v_status = 0, v_bytes = ''GPU-a''\<rparr>)),
     dcgm_group = (\<lambda>_ _. True), dcgm_add = (\<lambda>_ _. True), dcgm_fieldGroup = (\<lambda>_ _. True), dcgm_watch = (\<lambda>_. True)\<rparr>"

lemma demo_dcgm_answers: "answers_as_asked demo_dcgm"
  unfolding answers_as_asked_def
proof (intro allI impI)
  fix t es fs flags answer i
  assume "dcgm_latest demo_dcgm t es fs flags = Some answer" and i: "i < length es * length fs"
  then have "answer i = \<lparr>v_entity = es ! (i div length fs), v_field = fs ! (i mod length fs), v_kind = 105, v_status = 0,
      v_bytes = ''GPU-a''\<rparr>"
    by (auto simp: demo_dcgm_def)
  moreover have "0 < length fs" using i by (cases fs) simp_all
  with i have "i div length fs < length es" "i mod length fs < length fs"
    by (simp_all add: less_mult_imp_div_less)
  ultimately show "v_entity (answer i) \<in> set es \<and> v_field (answer i) \<in> set fs" by simp
qed

lemma demo_GPUs: "openNVML demo_nvml = [\<lparr>gpu_index = 0, gpu_uuid = ''GPU-a'', gpu_name = ''A100'', gpu_handle = 0\<rparr>]"
  by (simp add: openNVML_def demo_nvml_def demo_linker_def bind_def nvml_functions_def open_gpu_def cstr_def map_filter_def)

theorem every_GPU_has_every_key_witness:
  "\<exists>source entries. fst (sample_gpus demo_dcgm demo_nvml 1 0 (openGPUs demo_dcgm demo_nvml 1)) = Some (source, entries) \<and>
     length entries = 1 \<and> source \<noteq> None"
proof -
  from every_GPU_has_every_key [OF demo_dcgm_answers, of demo_nvml 1 0 "openGPUs demo_dcgm demo_nvml 1"]
  obtain source entries where
    "fst (sample_gpus demo_dcgm demo_nvml 1 0 (openGPUs demo_dcgm demo_nvml 1)) = Some (source, entries)"
    "list_all2 entry_of (openNVML demo_nvml) entries" "source = None \<longleftrightarrow> openNVML demo_nvml = []" by blast
  then show ?thesis by (auto simp: demo_GPUs dest: list_all2_lengthD)
qed

lemma demo_opened: "reader (openGPUs demo_dcgm demo_nvml 1) = Some [(0, ''GPU-a'')]"
  by (simp add: openGPUs_def demo_GPUs open_reader_def openDCGM_def loadDCGM_def demo_dcgm_def demo_linker_def bind_def
      dcgm_functions_def group_gpus_def dcgm_get_def by_uuid_def watch_gpus_def call_def now_def cstr_def Let_def)



end
