(* ===== verification/Usage.thy ===== *)
theory Usage
  imports Gpu Install
begin

text \<open>
  \<^verbatim>\<open>internal/usage\<close>: the reading of the kernel's files, the job, its samples and their poll.

  \<open>node\<close> is what the kernel's files hold while a sample is read; a file that cannot be read
  reads as no bytes. \<open>entries\<close> lists the names in a directory, \<open>walked\<close> the files below one
  in the order of the walk.
\<close>

record node =
  read_file :: "string \<Rightarrow> string option"
  file_exists :: "string \<Rightarrow> bool"
  entries :: "string \<Rightarrow> string list"
  walked :: "string \<Rightarrow> string list"

definition contents :: "node \<Rightarrow> string \<Rightarrow> string" where
  "contents fs path = (case read_file fs path of Some b \<Rightarrow> b | None \<Rightarrow> [])"

section \<open>Numbers in files\<close>

text \<open>\<^verbatim>\<open>strings.Lines\<close>: each line with its newline.\<close>

fun Lines :: "string \<Rightarrow> string list" where
  "Lines [] = []"
| "Lines (c # cs) =
     (if c = CHR 0x0A then [c] # Lines cs
      else case Lines cs of [] \<Rightarrow> [[c]] | l # ls \<Rightarrow> (c # l) # ls)"

fun first_int :: "string \<Rightarrow> string list \<Rightarrow> int option" where
  "first_int k [] = None"
| "first_int k (line # lines) =
     (case cut_prefix line k of
        None \<Rightarrow> first_int k lines
      | Some s \<Rightarrow>
         (case Fields s of
            [] \<Rightarrow> first_int k lines
          | f # _ \<Rightarrow> (case dec_number f of Some v \<Rightarrow> Some v | None \<Rightarrow> first_int k lines)))"

definition readInt :: "node \<Rightarrow> string \<Rightarrow> string \<Rightarrow> int option" where
  "readInt fs path k = first_int k (Lines (contents fs path))"

text \<open>The product has 64 bits.\<close>

definition scale :: "int option \<Rightarrow> int \<Rightarrow> int option" where
  "scale v by' = map_option (\<lambda>v. sint (word_of_int (v * by') :: 64 word)) v"

section \<open>The job\<close>

text \<open>
  The readers of the GPUs that the job opens are the two libraries and \<open>gpus\<close>, what the last reading
  left.
\<close>

record job =
  cgroup :: string
  wholeNode :: bool
  gpus :: gpu_state

definition procCgroup :: string where
  "procCgroup = ''/proc/self/cgroup''"

definition cgroupRoot :: string where
  "cgroupRoot = ''/sys/fs/cgroup''"

definition procRoot :: string where
  "procRoot = ''/proc''"

definition sysClass :: string where
  "sysClass = ''/sys/class''"

text \<open>
  \<^verbatim>\<open>(?m)^0::(.*?)/step_\<close>: on the first line that begins with \<^verbatim>\<open>0::\<close> and has \<^verbatim>\<open>/step_\<close> after it,
  what stands before the first of these.
\<close>

fun before :: "string \<Rightarrow> string \<Rightarrow> string option" where
  "before pat s = (if has_prefix s pat then Some []
     else case s of [] \<Rightarrow> None | c # cs \<Rightarrow> map_option (Cons c) (before pat cs))"

fun jobCgroup :: "string list \<Rightarrow> string option" where
  "jobCgroup [] = None"
| "jobCgroup (line # lines) =
     (case cut_prefix line ''0::'' of
        None \<Rightarrow> jobCgroup lines
      | Some s \<Rightarrow> (case before ''/step_'' s of None \<Rightarrow> jobCgroup lines | Some path \<Rightarrow> Some path))"

definition filepath_Dir :: "string \<Rightarrow> string" where
  "filepath_Dir path = clean_path (rev (dropWhile (\<lambda>c. c \<noteq> CHR ''/'') (rev path)))"

definition detect :: "dcgm \<Rightarrow> nvml \<Rightarrow> int \<Rightarrow> node \<Rightarrow> job" where
  "detect lib nv pid fs =
     (let j = \<lparr>cgroup = [], wholeNode = False, gpus = openGPUs lib nv pid\<rparr> in
      case read_file fs procCgroup of
        None \<Rightarrow> j
      | Some b \<Rightarrow>
         (case jobCgroup (split_at_char (CHR 0x0A) b) of
            None \<Rightarrow> j
          | Some path \<Rightarrow>
              let cg = cgroupRoot @ path;
                  mine = contents fs (cg @ ''/cpuset.cpus.effective'');
                  all = contents fs (filepath_Dir cg @ ''/cpuset.cpus.effective'')
              in j\<lparr>cgroup := cg, wholeNode := length mine > 1 \<and> mine = all\<rparr>))"

section \<open>Processes\<close>

record JobProcess =
  PID :: int
  Name :: string
  RSSBytes :: "int option"
  GPUMemMiB :: "int option"

definition base_name :: "string \<Rightarrow> string" where
  "base_name path = rev (takeWhile (\<lambda>c. c \<noteq> CHR ''/'') (rev path))"

definition read_process :: "node \<Rightarrow> (int \<Rightarrow> 64 word) option \<Rightarrow> string \<Rightarrow> JobProcess option" where
  "read_process fs gpuMem f =
     (let dir = procRoot @ ''/'' @ f in
      map_option (\<lambda>comm. let pid = fst (atoi f) in
        \<lparr>PID = pid, Name = trim_space comm,
         RSSBytes = scale (readInt fs (dir @ ''/status'') ''VmRSS:'') 1024,
         GPUMemMiB = map_option (\<lambda>mem. sint (mem pid)) gpuMem\<rparr>)
        (read_file fs (dir @ ''/comm'')))"

definition readProcesses :: "node \<Rightarrow> (int \<Rightarrow> 64 word) option \<Rightarrow> string \<Rightarrow> JobProcess list" where
  "readProcesses fs gpuMem root =
     concat (map (\<lambda>path. if base_name path = ''cgroup.procs''
       then List.map_filter (read_process fs gpuMem) (Fields (contents fs path)) else [])
       (walked fs root))"

section \<open>Links\<close>

record NetLink =
  Type :: string
  XmitBytes :: "int option"
  RcvBytes :: "int option"

text \<open>\<^verbatim>\<open>strings.Replace\<close> of the first occurrence.\<close>

fun replace_first :: "string \<Rightarrow> string \<Rightarrow> string \<Rightarrow> string" where
  "replace_first old new s = (if has_prefix s old then new @ drop (length old) s
     else case s of [] \<Rightarrow> [] | c # cs \<Rightarrow> c # replace_first old new cs)"

definition net_link :: "node \<Rightarrow> string \<Rightarrow> string \<Rightarrow> string \<Rightarrow> int \<Rightarrow> NetLink" where
  "net_link fs kind xmit rcv by' =
     \<lparr>Type = kind, XmitBytes = scale (readInt fs xmit []) by', RcvBytes = scale (readInt fs rcv []) by'\<rparr>"

definition ib_ports :: "node \<Rightarrow> string list" where
  "ib_ports fs = (let root = sysClass @ ''/infiniband'' in
     concat (map (\<lambda>hca. map (\<lambda>port. root @ ''/'' @ hca @ ''/ports/'' @ port)
       (entries fs (root @ ''/'' @ hca @ ''/ports''))) (entries fs root)))"

definition ib_link :: "node \<Rightarrow> string \<Rightarrow> (string \<times> NetLink) list \<Rightarrow> (string \<times> NetLink) list" where
  "ib_link fs p links =
     (if trim_space (contents fs (p @ ''/link_layer'')) = ''InfiniBand''
      then AList.update (replace_first ''/ports/'' ''/'' (trim_prefix p (sysClass @ ''/infiniband/'')))
        (net_link fs ''infiniband'' (p @ ''/counters/port_xmit_data'') (p @ ''/counters/port_rcv_data'') 4) links
      else links)"

definition net_ifaces :: "node \<Rightarrow> string list" where
  "net_ifaces fs = (let root = sysClass @ ''/net'' in map (\<lambda>n. root @ ''/'' @ n) (entries fs root))"

definition eth_link :: "node \<Rightarrow> string \<Rightarrow> (string \<times> NetLink) list \<Rightarrow> (string \<times> NetLink) list" where
  "eth_link fs n links =
     (if file_exists fs (n @ ''/device'') \<and> readInt fs (n @ ''/type'') [] = Some 1
      then AList.update (base_name n)
        (net_link fs ''ethernet'' (n @ ''/statistics/tx_bytes'') (n @ ''/statistics/rx_bytes'') 1) links
      else links)"

definition readNetwork :: "node \<Rightarrow> (string \<times> NetLink) list" where
  "readNetwork fs = fold (eth_link fs) (net_ifaces fs) (fold (ib_link fs) (ib_ports fs) [])"

section \<open>Samples\<close>

text \<open>A sample with no time is the one before any; \<open>SampledAt\<close> is a clock reading.\<close>

record Sample =
  SampledAt :: "int option"
  MemBytes :: "int option"
  MemAnonBytes :: "int option"
  MemFileBytes :: "int option"
  OOMKills :: "int option"
  CPUUsageUsec :: "int option"
  CPUSystemUsec :: "int option"
  Processes :: "JobProcess list option"
  GPUSource :: "string option"
  GPUs :: "entry_json list option"
  Network :: "(string \<times> NetLink) list option"

definition zero_sample :: Sample where
  "zero_sample = \<lparr>SampledAt = None, MemBytes = None, MemAnonBytes = None, MemFileBytes = None, OOMKills = None,
     CPUUsageUsec = None, CPUSystemUsec = None, Processes = None, GPUSource = None, GPUs = None, Network = None\<rparr>"

text \<open>
  \<open>t\<close> and \<open>t'\<close> are the times of the two readings of the GPUs. There is no sample when the first one
  panics, which ends the program.
\<close>

definition sample :: "dcgm \<Rightarrow> nvml \<Rightarrow> int \<Rightarrow> node \<Rightarrow> int \<Rightarrow> nat \<Rightarrow> nat \<Rightarrow> job \<Rightarrow> Sample option \<times> job" where
  "sample lib nv pid fs time t t' j =
     (let (r, g) = sample_gpus lib nv pid t (gpus j); j = j\<lparr>gpus := g\<rparr>; c = cgroup j in
      case r of
        None \<Rightarrow> (None, j)
      | Some (source, listed) \<Rightarrow>
          let s = zero_sample\<lparr>SampledAt := Some time, GPUSource := source, GPUs := Some listed\<rparr>;
              s = (if c \<noteq> [] then s\<lparr>
                 MemBytes := readInt fs (c @ ''/memory.current'') [],
                 MemAnonBytes := readInt fs (c @ ''/memory.stat'') ''anon '',
                 MemFileBytes := readInt fs (c @ ''/memory.stat'') ''file '',
                 OOMKills := readInt fs (c @ ''/memory.events'') ''oom_kill '',
                 CPUUsageUsec := readInt fs (c @ ''/cpu.stat'') ''usage_usec '',
                 CPUSystemUsec := readInt fs (c @ ''/cpu.stat'') ''system_usec '',
                 Processes := Some (readProcesses fs (sample_gpu_mem nv t') c)\<rparr> else s)
          in (Some (if wholeNode j then s\<lparr>Network := Some (readNetwork fs)\<rparr> else s), j))"

section \<open>The wire format\<close>

text \<open>
  \<^verbatim>\<open>encoding/json\<close> of a sample by its field tags: an absent value is \<^verbatim>\<open>null\<close>, and a map has its keys in
  order. The texts of a time and of a \<^verbatim>\<open>float64\<close> are arguments.
\<close>

record encoders =
  time_json :: "int \<Rightarrow> json"
  float_json :: "float64 \<Rightarrow> json"

definition nullable :: "('a \<Rightarrow> json) \<Rightarrow> 'a option \<Rightarrow> json" where
  "nullable f v = (case v of None \<Rightarrow> JNull | Some x \<Rightarrow> f x)"

definition process_json :: "JobProcess \<Rightarrow> json" where
  "process_json p = JObj [(''pid'', JNum (PID p)), (''name'', JStr (Name p)), (''rssBytes'', nullable JNum (RSSBytes p)),
     (''gpuMemMiB'', nullable JNum (GPUMemMiB p))]"

definition link_json :: "NetLink \<Rightarrow> json" where
  "link_json l = JObj [(''type'', JStr (Type l)), (''xmitBytes'', nullable JNum (XmitBytes l)),
     (''rcvBytes'', nullable JNum (RcvBytes l))]"

fun gpu_value_json :: "encoders \<Rightarrow> gpu_json \<Rightarrow> json" where
  "gpu_value_json enc (GInt i) = JNum i"
| "gpu_value_json enc (GText s) = JStr s"
| "gpu_value_json enc (GFloat x) = float_json enc x"
| "gpu_value_json enc GNull = JNull"

definition sample_json :: "encoders \<Rightarrow> Sample \<Rightarrow> json" where
  "sample_json enc s = JObj
     [(''sampledAt'', nullable (time_json enc) (SampledAt s)),
      (''memBytes'', nullable JNum (MemBytes s)),
      (''memAnonBytes'', nullable JNum (MemAnonBytes s)),
      (''memFileBytes'', nullable JNum (MemFileBytes s)),
      (''oomKills'', nullable JNum (OOMKills s)),
      (''cpuUsageUsec'', nullable JNum (CPUUsageUsec s)),
      (''cpuSystemUsec'', nullable JNum (CPUSystemUsec s)),
      (''processes'', nullable (\<lambda>ps. JArr (map process_json ps)) (Processes s)),
      (''gpuSource'', nullable JStr (GPUSource s)),
      (''gpus'', nullable (\<lambda>gs. JArr (map (\<lambda>g. obj (map (apsnd (gpu_value_json enc)) g)) gs)) (GPUs s)),
      (''network'', nullable (\<lambda>ls. obj (map (apsnd link_json) ls)) (Network s))]"

section \<open>The poll\<close>

text \<open>
  The loop starts a goroutine for each sample and waits for it, or for its context; the first
  detects the job. \<open>detections\<close> counts these. What a sample reads of the files is arbitrary, and the
  GPU libraries answer each call as they may.
\<close>

datatype poll_pc = PollStarts | PollAwaits | PollSleeps | PollReturned

record poll =
  known_job :: "job option"
  latest :: "Sample option"
  sampling :: bool
  poll_pc :: poll_pc
  poll_done :: bool
  detections :: nat

definition Latest_sample :: "poll \<Rightarrow> Sample" where
  "Latest_sample p = (case latest p of Some s \<Rightarrow> s | None \<Rightarrow> zero_sample)"

definition poll_start :: "poll \<Rightarrow> bool" where
  "poll_start p \<longleftrightarrow> known_job p = None \<and> latest p = None \<and> \<not> sampling p \<and> poll_pc p = PollStarts \<and> detections p = 0"

inductive poll_step :: "dcgm \<Rightarrow> nvml \<Rightarrow> int \<Rightarrow> poll \<Rightarrow> poll \<Rightarrow> bool" for lib nv pid where
  sample_starts: "poll_pc p = PollStarts \<Longrightarrow> poll_step lib nv pid p (p\<lparr>poll_pc := PollAwaits, sampling := True\<rparr>)"
| job_detected: "sampling p \<Longrightarrow> known_job p = None \<Longrightarrow>
    poll_step lib nv pid p (p\<lparr>known_job := Some (detect lib nv pid fs), detections := Suc (detections p)\<rparr>)"
| sample_stored: "sampling p \<Longrightarrow> known_job p = Some j \<Longrightarrow> sample lib nv pid fs time t t' j = (Some s, j') \<Longrightarrow>
    poll_step lib nv pid p (p\<lparr>known_job := Some j', latest := Some s, sampling := False\<rparr>)"
| sample_awaited: "poll_pc p = PollAwaits \<Longrightarrow> \<not> sampling p \<Longrightarrow> poll_step lib nv pid p (p\<lparr>poll_pc := PollSleeps\<rparr>)"
| interval_over: "poll_pc p = PollSleeps \<Longrightarrow> poll_step lib nv pid p (p\<lparr>poll_pc := PollStarts\<rparr>)"
| poll_cancelled: "poll_step lib nv pid p (p\<lparr>poll_done := True\<rparr>)"
| poll_returns: "poll_done p \<Longrightarrow> poll_pc p = PollAwaits \<or> poll_pc p = PollSleeps \<Longrightarrow>
    poll_step lib nv pid p (p\<lparr>poll_pc := PollReturned\<rparr>)"

inductive_simps poll_step_simps: "poll_step lib nv pid p q"

text \<open>Two states of one job differ in what its readers hold only.\<close>

definition same_job :: "job \<Rightarrow> job \<Rightarrow> bool" where
  "same_job i j \<longleftrightarrow> cgroup i = cgroup j \<and> wholeNode i = wholeNode j"

lemma sample_same_job: "sample lib nv pid fs time t t' j = (s, j') \<Longrightarrow> same_job j j'"
  by (auto simp: sample_def same_job_def Let_def split: prod.splits option.splits)

lemma sample_readers:
  "sample lib nv pid fs time t t' j = (s, j') \<Longrightarrow> connected_as_read (gpus j) \<Longrightarrow> connected_as_read (gpus j')"
  using sample_gpus_connected [of "gpus j" lib nv pid t] by (auto simp: sample_def Let_def split: prod.splits option.splits)

lemma detect_readers: "gpus (detect lib nv pid fs) = openGPUs lib nv pid"
  by (simp add: detect_def Let_def split: option.split)

definition sample_of :: "dcgm \<Rightarrow> nvml \<Rightarrow> int \<Rightarrow> job \<Rightarrow> Sample \<Rightarrow> bool" where
  "sample_of lib nv pid j s \<longleftrightarrow> (\<exists>fs time t t' i. same_job i j \<and> fst (sample lib nv pid fs time t t' i) = Some s)"

lemma sample_of_sample: "sample lib nv pid fs time t t' j = (Some s, j') \<Longrightarrow> sample_of lib nv pid j' s"
  unfolding sample_of_def using sample_same_job by (metis fst_conv)

definition poll_ok :: "dcgm \<Rightarrow> nvml \<Rightarrow> int \<Rightarrow> poll \<Rightarrow> bool" where
  "poll_ok lib nv pid p \<longleftrightarrow>
     detections p = (if known_job p = None then 0 else 1) \<and>
     (sampling p \<longrightarrow> poll_pc p = PollAwaits \<or> poll_pc p = PollReturned) \<and>
     (\<forall>s. latest p = Some s \<longrightarrow> (\<exists>j. known_job p = Some j \<and> sample_of lib nv pid j s)) \<and>
     (\<forall>j. known_job p = Some j \<longrightarrow> connected_as_read (gpus j))"

interpretation poll_invariant: invariant_of poll_start "poll_step lib nv pid" "poll_ok lib nv pid" for lib nv pid
proof unfold_locales
  show "poll_ok lib nv pid q" if "poll_ok lib nv pid p" "poll_step lib nv pid p q" for p q
    using that(2,1)
    by (cases rule: poll_step.cases)
      (auto simp: poll_ok_def detect_readers openGPUs_connected dest: sample_of_sample sample_readers)
qed (simp add: poll_start_def poll_ok_def)

section \<open>Lemmas\<close>

lemma Lines_line: "CHR 0x0A \<notin> set l \<Longrightarrow> Lines (l @ CHR 0x0A # rest) = (l @ [CHR 0x0A]) # Lines rest"
  by (induction l) auto

lemma first_space: "(x :: char) \<notin> set a \<Longrightarrow> x \<notin> set b \<Longrightarrow> a @ x # r = b @ x # s \<longleftrightarrow> a = b \<and> r = s"
  (is "?p \<Longrightarrow> ?q \<Longrightarrow> ?l \<longleftrightarrow> ?r")
proof -
  assume ab: ?p ?q
  have "(a, r) = (b, s)" if ?l
    using arg_cong [OF that, of "cut_at x"] by (simp only: cut_at_append [OF ab(1)] cut_at_append [OF ab(2)] option.inject)
  then show ?thesis by auto
qed

text \<open>A file of one key and number per line.\<close>

fun stat_file :: "(string \<times> int) list \<Rightarrow> string" where
  "stat_file [] = []"
| "stat_file ((k, v) # kvs) = k @ '' '' @ itoa v @ [CHR 0x0A] @ stat_file kvs"

definition stat_keys :: "(string \<times> int) list \<Rightarrow> bool" where
  "stat_keys kvs \<longleftrightarrow> list_all (\<lambda>(k, v). CHR '' '' \<notin> set k \<and> CHR 0x0A \<notin> set k \<and> 0 \<le> v \<and> v \<le> max_int64) kvs"

lemma itoa_no_space: "0 \<le> v \<Longrightarrow> c \<in> set (itoa v) \<Longrightarrow> \<not> is_space c"
  using itoa_digits is_digit_not_space by blast

lemma is_space_newline [simp]: "is_space (CHR 0x0A)"
  by (simp add: is_space_def)

lemma first_int_stat:
  assumes "CHR '' '' \<notin> set key" and "stat_keys kvs"
  shows "first_int (key @ '' '') (Lines (stat_file kvs)) = map_of kvs key"
  using assms(2)
proof (induction kvs rule: stat_file.induct)
  case (2 k v kvs)
  then have k: "CHR '' '' \<notin> set k" "CHR 0x0A \<notin> set k" and v: "0 \<le> v" "v \<le> max_int64" and "stat_keys kvs"
    by (simp_all add: stat_keys_def)
  have "CHR 0x0A \<notin> set (itoa v)" using itoa_no_space [OF v(1), of "CHR 0x0A"] by auto
  with k(2) have "CHR 0x0A \<notin> set (k @ '' '' @ itoa v)" by simp
  from Lines_line [OF this, of "stat_file kvs"]
  have lines: "Lines (stat_file ((k, v) # kvs)) = (k @ CHR '' '' # itoa v @ [CHR 0x0A]) # Lines (stat_file kvs)"
    by simp
  have cut: "cut_prefix (k @ CHR '' '' # itoa v @ [CHR 0x0A]) (key @ '' '') =
      (if key = k then Some (itoa v @ [CHR 0x0A]) else None)"
  proof (cases "key = k")
    case False
    then have "k @ CHR '' '' # itoa v @ [CHR 0x0A] \<noteq> (key @ '' '') @ r" for r
      using first_space [OF k(1) assms(1)] by auto
    then show ?thesis using False cut_prefix_Some
      by (metis not_Some_eq)
  qed (simp add: cut_prefix_def has_prefix_split)
  have "Fields (itoa v @ [CHR 0x0A]) = [itoa v]"
    using fields_word [of "itoa v" "CHR 0x0A" "[]"] itoa_no_space [OF v(1)]
    by (simp add: list_all_iff Fields_def)
  moreover have "dec_number (itoa v) = Some v" using number.dec_enc v by blast
  ultimately show ?case
    using "2.IH" \<open>stat_keys kvs\<close> by (simp add: lines cut del: stat_file.simps)
qed simp

lemma scale_exact: "\<bar>v * by'\<bar> < 2 ^ 63 \<Longrightarrow> scale (Some v) by' = Some (v * by')"
  unfolding scale_def option.map sint_sbintrunc' by (simp add: signed_take_bit_int_eq_self)

section \<open>Properties\<close>

text \<open>A number is read under the key it was written with: in a file of one key and number per line,
  each key reads as its first number, and no other key as any.\<close>

theorem readInt_reads_what_was_written:
  assumes "CHR '' '' \<notin> set key" and "stat_keys kvs" and "read_file fs path = Some (stat_file kvs)"
  shows "readInt fs path (key @ '' '') = map_of kvs key"
  using first_int_stat [OF assms(1,2)] assms(3) by (simp add: readInt_def contents_def)

theorem readInt_reads_what_was_written_witness:
  "readInt \<lparr>read_file = (\<lambda>_. Some (stat_file [(''anon'', 5), (''file'', 7)])), file_exists = (\<lambda>_. False),
     entries = (\<lambda>_. []), walked = (\<lambda>_. [])\<rparr> ''/memory.stat'' ''file '' = Some 7"
  using readInt_reads_what_was_written [of "''file''" "[(''anon'', 5), (''file'', 7)]"
      "\<lparr>read_file = (\<lambda>_. Some (stat_file [(''anon'', 5), (''file'', 7)])), file_exists = (\<lambda>_. False),
     entries = (\<lambda>_. []), walked = (\<lambda>_. [])\<rparr>" "''/memory.stat''"]
  by (simp add: stat_keys_def max_int64_def del: stat_file.simps)

text \<open>C33: what the job is gets read once, every sample is of that job, at most one is taken at a time while
  the poll goes on, and what is answered before the first is the sample with nothing in it. Between
  samples a connection to DCGM is open exactly while there is a reader for it, whatever the
  libraries answered before. Once its context is done the poll can return at once, whether or not
  a sample has ended.\<close>

theorem Poll_samples_one_job:
  assumes "reach poll_start (poll_step lib nv pid) p"
  shows "detections p \<le> 1 \<and>
    (Latest_sample p = zero_sample \<or> (\<exists>j. known_job p = Some j \<and> sample_of lib nv pid j (Latest_sample p))) \<and>
    (\<forall>j. known_job p = Some j \<longrightarrow> connection (gpus j) = Some (opened (reader (gpus j)))) \<and>
    (sampling p \<longrightarrow> poll_pc p \<in> {PollAwaits, PollReturned}) \<and>
    (poll_done p \<and> poll_pc p \<in> {PollAwaits, PollSleeps} \<longrightarrow> poll_step lib nv pid p (p\<lparr>poll_pc := PollReturned\<rparr>))"
  using poll_invariant.reachable_inv [OF assms] poll_returns [of p lib nv pid]
  by (auto simp: poll_ok_def Latest_sample_def connected_as_read_def split: option.split)

definition polling :: poll where
  "polling = \<lparr>known_job = None, latest = None, sampling = True, poll_pc = PollAwaits, poll_done = True,
     detections = 0\<rparr>"

lemma reach_polling: "reach poll_start (poll_step lib nv pid) polling"
proof -
  let ?p = "polling\<lparr>sampling := False, poll_pc := PollStarts\<rparr>"
  have "reach poll_start (poll_step lib nv pid) ?p" by (rule reach_init) (simp add: poll_start_def polling_def)
  then show ?thesis by (rule reach_step) (use sample_starts [of ?p lib nv pid] in \<open>simp add: polling_def\<close>)
qed

definition no_linker :: linker where
  "no_linker = \<lparr>dlopen = (\<lambda>_. None), dlsym = (\<lambda>_ _. None)\<rparr>"

definition no_dcgm :: dcgm where
  "no_dcgm = \<lparr>dcgm_linker = (\<lambda>_. no_linker), dcgm_initialize = (\<lambda>_. False), dcgm_connect = (\<lambda>_. False),
     dcgm_devices = (\<lambda>_. None), dcgm_latest = (\<lambda>_ _ _ _. None), dcgm_group = (\<lambda>_ _. False), dcgm_add = (\<lambda>_ _. False),
     dcgm_fieldGroup = (\<lambda>_ _. False), dcgm_watch = (\<lambda>_. False)\<rparr>"

definition no_nvml :: nvml where
  "no_nvml = \<lparr>nvml_linker = no_linker, nvml_init = False, nvml_count = None, nvml_handle = (\<lambda>_. None),
     nvml_uuid = (\<lambda>_. None), nvml_name = (\<lambda>_. None), nvml_util = (\<lambda>_ _. None), nvml_memory = (\<lambda>_ _. None),
     nvml_field = (\<lambda>_ _. None), nvml_power = (\<lambda>_ _. None), nvml_temp = (\<lambda>_ _. None), nvml_clock = (\<lambda>_ _ _. None),
     nvml_reasons = (\<lambda>_ _. None), nvml_ecc = (\<lambda>_ _. None), nvml_procs = (\<lambda>_ _. None)\<rparr>"

theorem Poll_samples_one_job_witness:
  "reach poll_start (poll_step no_dcgm no_nvml 1) polling \<and> detections polling \<le> 1 \<and>
   Latest_sample polling = zero_sample \<and> poll_pc polling = PollAwaits \<and>
   poll_step no_dcgm no_nvml 1 polling (polling\<lparr>poll_pc := PollReturned\<rparr>)"
  using Poll_samples_one_job [OF reach_polling, of no_dcgm no_nvml 1]
  by (simp add: reach_polling) (simp add: polling_def)

end
