(* ===== verification/Startup.thy ===== *)
theory Startup
  imports TaskProps Sessions Checkpoint Workflow Tunnel Usage
begin

text \<open>
  \<^verbatim>\<open>main.go\<close>: the options, the table of subsystems with the routes and the actions it gives, the
  tasks Linkspan starts with, and the entry point.

  The readers of workflow files, of YAML and of keys, and the poll of the usage, are arguments,
  as in the theories of the parts. A Go map is a list in the order of the source.
\<close>

section \<open>Options\<close>

record options =
  printVersion :: bool
  tunnelEnable :: bool
  tunnelMode :: string
  tunnelArgs :: "string \<Rightarrow> string"
  port :: int
  portSet :: bool
  socket :: string
  workflow :: string

definition args_flag :: "string \<Rightarrow> string" where
  "args_flag name = ''tunnel-'' @ name @ ''-args''"

definition registerFlags :: "flag_spec" where
  "registerFlags = [(''version'', BoolFlag), (''tunnel-enable'', BoolFlag), (''tunnel-mode'', TextFlag)] @
     map (\<lambda>(name, t). (args_flag name, TextFlag)) (Transports (\<lambda>_. False)) @
     [(''port'', IntFlag), (''socket'', TextFlag), (''workflow'', TextFlag)]"

definition bool_setting :: "flag_settings \<Rightarrow> string \<Rightarrow> bool" where
  "bool_setting sets name = (setting sets name = Some (BoolValue True))"

definition options_of :: "flag_settings \<Rightarrow> options" where
  "options_of sets =
     \<lparr>printVersion = bool_setting sets ''version'',
      tunnelEnable = bool_setting sets ''tunnel-enable'',
      tunnelMode = text_setting sets ''tunnel-mode'',
      tunnelArgs = (\<lambda>name. text_setting sets (args_flag name)),
      port = (case setting sets ''port'' of Some (IntValue n) \<Rightarrow> n | _ \<Rightarrow> 8080),
      portSet = (setting sets ''port'' \<noteq> None),
      socket = text_setting sets ''socket'',
      workflow = text_setting sets ''workflow''\<rparr>"

text \<open>The arguments the flags leave are not looked at; \<^const>\<open>None\<close> when they end the program.\<close>

definition parse_options :: "string list \<Rightarrow> options option" where
  "parse_options args = map_option (options_of \<circ> fst) (parse_flags registerFlags args)"

section \<open>The table of subsystems\<close>

record subsystem =
  router :: "sys action Router"
  actions_of :: "(string \<times> sys action) list"

definition subsystems :: "(string \<Rightarrow> ('k \<times> string list) option) \<Rightarrow> env \<Rightarrow> (string \<times> subsystem) list" where
  "subsystems parse_key e =
     [(''workflow'', \<lparr>router = workflow_Router e, actions_of = []\<rparr>),
      (''vscode'', \<lparr>router = vscode_Router parse_key e, actions_of = vscode_Actions parse_key e\<rparr>),
      (''jupyter'', \<lparr>router = jupyter_Router e, actions_of = jupyter_Actions e\<rparr>),
      (''terminal'', \<lparr>router = terminal_Router e, actions_of = terminal_Actions e\<rparr>),
      (''filesystem'', \<lparr>router = filesystem_Router, actions_of = filesystem_Actions\<rparr>),
      (''checkpoint'', \<lparr>router = checkpoint_Router e, actions_of = checkpoint_Actions e\<rparr>)]"

definition health :: "sys action" where
  "health params s = ((200, JObj [(''status'', JStr ''ok'')], []), s)"

text \<open>\<open>polled\<close> is the poll of the usage as the rest of the program has left it.\<close>

definition usage_action :: "encoders \<Rightarrow> (sys \<Rightarrow> poll) \<Rightarrow> sys action" where
  "usage_action enc polled params s = ((200, sample_json enc (Latest_sample (polled s)), []), s)"

definition routes :: "encoders \<Rightarrow> (sys \<Rightarrow> poll) \<Rightarrow> (string \<times> subsystem) list \<Rightarrow> sys action Router" where
  "routes enc polled subs =
     fold (\<lambda>(name, sub) root. Mount root (router sub)) subs
       (New ''/api/v1'' [(''GET /health'', health), (''GET /usage'', usage_action enc polled)])"

definition prefixed :: "string \<Rightarrow> (string \<times> sys action) list \<Rightarrow> (string \<times> sys action) list \<Rightarrow> (string \<times> sys action) list" where
  "prefixed name acts out = fold (\<lambda>(action, a). AList.update (name @ ''.'' @ action) a) acts out"

definition actions :: "env \<Rightarrow> (string \<times> subsystem) list \<Rightarrow> (string \<times> sys action) list" where
  "actions e subs = fold (\<lambda>(name, sub). prefixed name (actions_of sub)) subs (workflow_Actions e)"

section \<open>\<^verbatim>\<open>startAll\<close>\<close>

definition addrs :: "options \<Rightarrow> string list" where
  "addrs opts =
     (if portSet opts \<or> socket opts = [] then [loopback (port opts)] else []) @
     (if socket opts \<noteq> [] then [socket opts] else [])"

definition http_task :: "string \<Rightarrow> Task" where
  "http_task addr = zero_task\<lparr>Kind := ''http'', Addr := addr, Work := ServerWork\<rparr>"

definition usage_task :: Task where
  "usage_task = zero_task\<lparr>Kind := ''usage'', Work := RunWork\<rparr>"

definition workflow_task :: Task where
  "workflow_task = zero_task\<lparr>Kind := ''workflow'', Work := RunWork\<rparr>"

text \<open>What is validated: the transports and the workflow, which is then the one that is loaded.\<close>

definition start_list :: "(string \<Rightarrow> bool) \<Rightarrow> (string \<Rightarrow> string + string) \<Rightarrow> (string \<Rightarrow> string + trigger_doc list) \<Rightarrow>
    env \<Rightarrow> (string \<times> sys action) list \<Rightarrow> options \<Rightarrow> string + Task list \<times> Trigger list" where
  "start_list ip_literal read_workflow parse_yaml e acts opts =
     (case tunnel_Parse ip_literal (getenv e) (tunnelEnable opts) (tunnelMode opts) (tunnelArgs opts) of
        Inl err \<Rightarrow> Inl err
      | Inr tunnels \<Rightarrow>
         (case (if workflow opts \<noteq> [] then Load read_workflow parse_yaml (workflow opts) acts else Inr []) of
            Inl err \<Rightarrow> Inl err
          | Inr loaded \<Rightarrow>
              Inr (map http_task (addrs opts) @ [usage_task] @ map fst tunnels @
                   (if workflow opts \<noteq> [] then [workflow_task] else []), loaded)))"

fun start_each :: "env \<Rightarrow> Task list \<Rightarrow> sys \<Rightarrow> string option \<times> sys" where
  "start_each e [] s = (None, s)"
| "start_each e (t # ts) s =
     (case tasks_Start e t s of
        (Inl err, s) \<Rightarrow> (Some err, s)
      | (Inr t', s) \<Rightarrow> start_each e ts s)"

definition startAll :: "(string \<Rightarrow> bool) \<Rightarrow> (string \<Rightarrow> string + string) \<Rightarrow> (string \<Rightarrow> string + trigger_doc list) \<Rightarrow>
    env \<Rightarrow> (string \<times> sys action) list \<Rightarrow> options \<Rightarrow> sys \<Rightarrow> (string + Trigger list) \<times> sys" where
  "startAll ip_literal read_workflow parse_yaml e acts opts s =
     (case start_list ip_literal read_workflow parse_yaml e acts opts of
        Inl err \<Rightarrow> (Inl err, s)
      | Inr (all, loaded) \<Rightarrow>
         (case start_each e all s of
            (Some err, s) \<Rightarrow> (Inl err, s)
          | (None, s) \<Rightarrow> (Inr loaded, s)))"

section \<open>\<^verbatim>\<open>main\<close>\<close>

text \<open>
  \<open>until_woken\<close> is all that happens until \<^verbatim>\<open>main\<close> sees a signal or an error, and answers
  whether it was a signal. The exit code and the state are those at the exit.
\<close>

definition main_select :: "(sys \<Rightarrow> bool \<times> sys) \<Rightarrow> sys \<Rightarrow> string option \<times> sys" where
  "main_select until_woken s =
     (let (signal, s) = until_woken s in
      case Failed (tasks s) of
        err # rest \<Rightarrow> if signal then (None, s) else (Some err, s\<lparr>tasks := (tasks s)\<lparr>Failed := rest\<rparr>\<rparr>)
      | [] \<Rightarrow> (None, s))"

definition main_run :: "(sys \<Rightarrow> bool \<times> sys) \<Rightarrow> env \<Rightarrow> (sys \<Rightarrow> (string + Trigger list) \<times> sys) \<Rightarrow> sys \<Rightarrow> int \<times> sys" where
  "main_run until_woken e start_all s =
     (case start_all s of
        (Inl err, s) \<Rightarrow> (1, s)
      | (Inr loaded, s) \<Rightarrow>
          let (failed, s) = main_select until_woken s; (stop_failed, s) = workflow_Run e loaded ''stop'' s
          in (if failed \<noteq> None \<or> stop_failed \<noteq> None then 1 else 0, s))"

definition main :: "(sys \<Rightarrow> bool \<times> sys) \<Rightarrow> env \<Rightarrow> (options \<Rightarrow> sys \<Rightarrow> (string + Trigger list) \<times> sys) \<Rightarrow>
    options \<Rightarrow> sys \<Rightarrow> int \<times> sys" where
  "main until_woken e start_all opts s =
     (if printVersion opts then (0, s)
      else let (code, s) = main_run until_woken e (start_all opts) s in (code, tasks_StopAll e s))"

section \<open>Lemmas on the options\<close>

text \<open>A flag and its value given as two arguments, or a boolean one alone.\<close>

lemma parse_text_flag:
  "flag_of f = FlagArg name None \<Longrightarrow> map_of spec name = Some TextFlag \<Longrightarrow>
     parse_flags spec (f # v # rest) =
       map_option (\<lambda>(sets, left). ((name, TextValue v) # sets, left)) (parse_flags spec rest)"
  by simp

lemma parse_bool_flag:
  "flag_of f = FlagArg name None \<Longrightarrow> map_of spec name = Some BoolFlag \<Longrightarrow>
     parse_flags spec (f # rest) =
       map_option (\<lambda>(sets, left). ((name, BoolValue True) # sets, left)) (parse_flags spec rest)"
  by (simp add: parse_bool_def)

lemma alnum_digit: "is_digit c \<Longrightarrow> alnum_val c = Some (digit_val c) \<and> digit_val c < 10 \<and> c \<noteq> CHR ''_''"
  by (auto simp: alnum_val_def digit_val_def is_digit_def Let_def)

lemma magnitude_digits:
  "list_all is_digit ds \<Longrightarrow> magnitude 10 acc ds = Some (foldl (\<lambda>n c. 10 * n + digit_val c) acc ds)"
  by (induction ds arbitrary: acc) (auto simp: alnum_digit mult.commute)

lemma underscores_digits: "list_all is_digit ds \<Longrightarrow> i \<noteq> AfterUnderscore \<Longrightarrow> underscores_ok False i ds"
  by (induction ds arbitrary: i) (auto simp: Let_def)

lemma utoa_no_leading_zero: "0 < n \<Longrightarrow> hd (utoa n) \<noteq> CHR ''0''"
proof (induction n rule: utoa.induct)
  case (1 n)
  show ?case
  proof (cases "n < 10")
    case True
    with 1(2) have "n \<in> {1, 2, 3, 4, 5, 6, 7, 8, 9}" by auto
    then show ?thesis by (auto simp: utoa.simps [of n] digit_char_def)
  next
    case False
    then have "hd (utoa n) = hd (utoa (n div 10))" by (subst utoa.simps) simp
    with 1(1) False show ?thesis by simp
  qed
qed

lemma parse_int0_itoa:
  assumes "0 \<le> n" and "n \<le> max_int64"
  shows "parse_int0 (itoa n) = Some n"
proof (cases "n = 0")
  case True
  then show ?thesis by (simp add: itoa_def utoa_digit digit_char_def) code_simp
next
  case False
  let ?ds = "utoa (nat n)"
  obtain c cs where ds: "?ds = c # cs" by (cases ?ds) auto
  have digits: "list_all is_digit ?ds" by (simp add: list_all_iff utoa_digits)
  then have c: "c \<noteq> CHR ''-''" "c \<noteq> CHR ''+''" using ds is_digit_not_sign by auto
  have "c \<noteq> CHR ''0''" using utoa_no_leading_zero [of "nat n"] False assms(1) ds by simp
  then have "base_prefix ?ds = (10, ?ds, AtStart)" by (simp add: base_prefix_def ds)
  moreover have "magnitude 10 0 ?ds = Some (nat n)"
    using magnitude_digits [OF digits, of 0] digits_val_utoa [of "nat n"] by (simp add: digits_val_def)
  moreover have "underscores_ok False AtStart ?ds" using underscores_digits [OF digits] by simp
  ultimately show ?thesis
    using assms c ds by (simp add: parse_int0_def itoa_def Let_def)
qed

interpretation flag_number: codec itoa parse_int0 "\<lambda>n. 0 \<le> n \<and> n \<le> max_int64"
  by unfold_locales (simp add: parse_int0_itoa)

text \<open>The options as arguments, those that are not the default.\<close>

definition text_arg :: "string \<Rightarrow> string \<Rightarrow> string list" where
  "text_arg name v = (if v \<noteq> [] then [''--'' @ name, v] else [])"

definition option_args :: "options \<Rightarrow> string list" where
  "option_args opts =
     (if printVersion opts then [''--version''] else []) @
     (if tunnelEnable opts then [''--tunnel-enable''] else []) @
     text_arg ''tunnel-mode'' (tunnelMode opts) @
     text_arg (args_flag ''link'') (tunnelArgs opts ''link'') @
     text_arg (args_flag ''devtunnel'') (tunnelArgs opts ''devtunnel'') @
     (if portSet opts then [''--port'', itoa (port opts)] else []) @
     text_arg ''socket'' (socket opts) @ text_arg ''workflow'' (workflow opts)"

definition valid_options :: "options \<Rightarrow> bool" where
  "valid_options opts \<longleftrightarrow> 0 \<le> port opts \<and> port opts \<le> max_int64 \<and> (\<not> portSet opts \<longrightarrow> port opts = 8080) \<and>
     (\<forall>name. name \<notin> {''link'', ''devtunnel''} \<longrightarrow> tunnelArgs opts name = [])"

definition reads_as :: "string list \<Rightarrow> flag_settings \<Rightarrow> bool" where
  "reads_as args sets \<longleftrightarrow> (\<forall>rest sets' left. parse_flags registerFlags rest = Some (sets', left) \<longrightarrow>
     parse_flags registerFlags (args @ rest) = Some (sets @ sets', left))"

lemma reads_as_append: "reads_as a x \<Longrightarrow> reads_as b y \<Longrightarrow> reads_as (a @ b) (x @ y)"
  by (simp add: reads_as_def)

lemma reads_as_Nil: "reads_as [] []"
  by (simp add: reads_as_def)

definition given :: "bool \<Rightarrow> string \<Rightarrow> flag_value \<Rightarrow> flag_settings" where
  "given b name v = (if b then [(name, v)] else [])"

lemma reads_as_text:
  "flag_of (''--'' @ name) = FlagArg name None \<Longrightarrow> map_of registerFlags name = Some TextFlag \<Longrightarrow>
     reads_as (text_arg name v) (given (v \<noteq> []) name (TextValue v))"
  by (simp add: reads_as_def text_arg_def given_def)

lemma reads_as_bool:
  "flag_of f = FlagArg name None \<Longrightarrow> map_of registerFlags name = Some BoolFlag \<Longrightarrow>
     reads_as (if b then [f] else []) (given b name (BoolValue True))"
  by (simp add: reads_as_def parse_bool_def given_def)

lemma flags_known:
  "map_of registerFlags ''version'' = Some BoolFlag" "map_of registerFlags ''tunnel-enable'' = Some BoolFlag"
  "map_of registerFlags ''tunnel-mode'' = Some TextFlag" "map_of registerFlags (args_flag ''link'') = Some TextFlag"
  "map_of registerFlags (args_flag ''devtunnel'') = Some TextFlag" "map_of registerFlags ''port'' = Some IntFlag"
  "map_of registerFlags ''socket'' = Some TextFlag" "map_of registerFlags ''workflow'' = Some TextFlag"
  by code_simp+

lemma flags_read:
  "flag_of ''--version'' = FlagArg ''version'' None" "flag_of ''--tunnel-enable'' = FlagArg ''tunnel-enable'' None"
  "flag_of (''--'' @ ''tunnel-mode'') = FlagArg ''tunnel-mode'' None"
  "flag_of (''--'' @ args_flag ''link'') = FlagArg (args_flag ''link'') None"
  "flag_of (''--'' @ args_flag ''devtunnel'') = FlagArg (args_flag ''devtunnel'') None"
  "flag_of ''--port'' = FlagArg ''port'' None" "flag_of (''--'' @ ''socket'') = FlagArg ''socket'' None"
  "flag_of (''--'' @ ''workflow'') = FlagArg ''workflow'' None"
  by code_simp+

definition option_sets :: "options \<Rightarrow> flag_settings" where
  "option_sets opts =
     given (printVersion opts) ''version'' (BoolValue True) @
     given (tunnelEnable opts) ''tunnel-enable'' (BoolValue True) @
     given (tunnelMode opts \<noteq> []) ''tunnel-mode'' (TextValue (tunnelMode opts)) @
     given (tunnelArgs opts ''link'' \<noteq> []) (args_flag ''link'') (TextValue (tunnelArgs opts ''link'')) @
     given (tunnelArgs opts ''devtunnel'' \<noteq> []) (args_flag ''devtunnel'') (TextValue (tunnelArgs opts ''devtunnel'')) @
     given (portSet opts) ''port'' (IntValue (port opts)) @
     given (socket opts \<noteq> []) ''socket'' (TextValue (socket opts)) @
     given (workflow opts \<noteq> []) ''workflow'' (TextValue (workflow opts))"

lemma option_args_read:
  assumes "valid_options opts"
  shows "parse_flags registerFlags (option_args opts) = Some (option_sets opts, [])"
proof -
  have port: "reads_as (if portSet opts then [''--port'', itoa (port opts)] else [])
      (given (portSet opts) ''port'' (IntValue (port opts)))"
    using assms by (simp add: given_def reads_as_def flags_read flags_known parse_int0_itoa valid_options_def)
  have "reads_as (option_args opts) (option_sets opts)"
    unfolding option_args_def option_sets_def
    by (intro reads_as_append port reads_as_text reads_as_bool) (simp_all only: flags_read flags_known)
  from this [unfolded reads_as_def, rule_format, of "[]" "[]" "[]"] show ?thesis by simp
qed

lemma setting_append: "setting (xs @ ys) name = (case setting ys name of Some v \<Rightarrow> Some v | None \<Rightarrow> setting xs name)"
  by (simp add: setting_def map_add_def split: option.split)

lemma setting_given: "setting (given b n v) name = (if b \<and> n = name then Some v else None)"
  by (simp add: setting_def given_def)

lemmas option_setting = option_sets_def setting_append setting_given args_flag_def

lemma option_sets_texts:
  "text_setting (option_sets opts) ''tunnel-mode'' = tunnelMode opts"
  "text_setting (option_sets opts) (args_flag ''link'') = tunnelArgs opts ''link''"
  "text_setting (option_sets opts) (args_flag ''devtunnel'') = tunnelArgs opts ''devtunnel''"
  "text_setting (option_sets opts) ''socket'' = socket opts"
  "text_setting (option_sets opts) ''workflow'' = workflow opts"
  by (simp_all add: text_setting_def option_setting)

lemma option_sets_others:
  "bool_setting (option_sets opts) ''version'' = printVersion opts"
  "bool_setting (option_sets opts) ''tunnel-enable'' = tunnelEnable opts"
  "setting (option_sets opts) ''port'' = (if portSet opts then Some (IntValue (port opts)) else None)"
  by (simp_all add: bool_setting_def option_setting)

lemma args_flag_inj: "args_flag a = args_flag b \<longleftrightarrow> a = b"
  by (simp add: args_flag_def)

lemma option_sets_args:
  assumes "valid_options opts"
  shows "(\<lambda>name. text_setting (option_sets opts) (args_flag name)) = tunnelArgs opts"
proof
  fix name
  show "text_setting (option_sets opts) (args_flag name) = tunnelArgs opts name"
  proof (cases "name \<in> {''link'', ''devtunnel''}")
    case True
    then show ?thesis using option_sets_texts by auto
  next
    case False
    then have "setting (option_sets opts) (args_flag name) = None"
      using args_flag_inj [of "''link''" name] args_flag_inj [of "''devtunnel''" name]
      by (simp add: option_sets_def setting_append setting_given) (auto simp: args_flag_def)
    with False assms show ?thesis by (simp add: text_setting_def valid_options_def)
  qed
qed

lemma parse_option_args: "valid_options opts \<Longrightarrow> parse_options (option_args opts) = Some opts"
  by (cases opts) (auto simp: parse_options_def option_args_read options_of_def option_sets_texts option_sets_others
      option_sets_args valid_options_def)

interpretation options_code: codec option_args parse_options valid_options
  by unfold_locales (rule parse_option_args)

section \<open>Lemmas on the routes\<close>

text \<open>Each route of a subsystem, and the workflow action that is the same.\<close>

definition api :: "(string \<times> string) list" where
  "api =
     [(''POST /api/v1/workflow/shell/exec'', ''shell.exec''),
      (''GET /api/v1/vscode/sessions'', ''vscode.sessions.select''),
      (''POST /api/v1/vscode/sessions'', ''vscode.sessions.start''),
      (''POST /api/v1/jupyter/setup'', ''jupyter.setup''),
      (''GET /api/v1/jupyter/sessions'', ''jupyter.sessions.select''),
      (''POST /api/v1/jupyter/sessions'', ''jupyter.sessions.start''),
      (''DELETE /api/v1/jupyter/sessions/{id}'', ''jupyter.sessions.stop''),
      (''GET /api/v1/terminal/sessions'', ''terminal.sessions.select''),
      (''POST /api/v1/terminal/sessions'', ''terminal.sessions.start''),
      (''DELETE /api/v1/terminal/sessions/{id}'', ''terminal.sessions.stop''),
      (''POST /api/v1/filesystem/mount'', ''filesystem.mount''),
      (''POST /api/v1/filesystem/unmount'', ''filesystem.unmount''),
      (''POST /api/v1/filesystem/copy'', ''filesystem.copy''),
      (''POST /api/v1/filesystem/sync'', ''filesystem.sync''),
      (''POST /api/v1/checkpoint/pause'', ''checkpoint.pause''),
      (''POST /api/v1/checkpoint/resume'', ''checkpoint.resume'')]"

lemmas router_defs = workflow_Router_def vscode_Router_def jupyter_Router_def terminal_Router_def
  filesystem_Router_def checkpoint_Router_def

lemmas action_defs = workflow_Actions_def vscode_Actions_def jupyter_Actions_def terminal_Actions_def
  filesystem_Actions_def checkpoint_Actions_def action_named_def

lemma Routes_of_subsystems:
  "Routes (workflow_Router e) = [(''POST /workflow/shell/exec'', exec_action e)]"
  "Routes (vscode_Router parse_key e) =
     [(''GET /vscode/sessions'', servers_Select e ''sshd''), (''POST /vscode/sessions'', vscode_startServer parse_key e)]"
  "Routes (jupyter_Router e) =
     [(''POST /jupyter/setup'', jupyter_setup e), (''GET /jupyter/sessions'', servers_Select e ''jupyter''),
      (''POST /jupyter/sessions'', jupyter_startServer e), (''DELETE /jupyter/sessions/{id}'', servers_Stop e)]"
  "Routes (terminal_Router e) =
     [(''GET /terminal/sessions'', servers_Select e ''terminal''), (''POST /terminal/sessions'', terminal_startServer e),
      (''DELETE /terminal/sessions/{id}'', servers_Stop e)]"
  "Routes (filesystem_Router :: 's action Router) =
     [(''POST /filesystem/mount'', notImplemented ''mount'' [''source'', ''target'']),
      (''POST /filesystem/unmount'', notImplemented ''unmount'' [''target'']),
      (''POST /filesystem/copy'', notImplemented ''copy'' [''source'', ''target'']),
      (''POST /filesystem/sync'', notImplemented ''sync'' [''source'', ''target''])]"
  "Routes (checkpoint_Router e) = [(''POST /checkpoint/pause'', pause e), (''POST /checkpoint/resume'', resume e)]"
  by (simp_all add: router_defs action_defs New_def add_def route_key_def)

lemma all_routes:
  "Routes (routes enc polled (subsystems parse_key e)) =
     [(''GET /api/v1/health'', health), (''GET /api/v1/usage'', usage_action enc polled),
      (''POST /api/v1/workflow/shell/exec'', exec_action e),
      (''GET /api/v1/vscode/sessions'', servers_Select e ''sshd''),
      (''POST /api/v1/vscode/sessions'', vscode_startServer parse_key e),
      (''POST /api/v1/jupyter/setup'', jupyter_setup e),
      (''GET /api/v1/jupyter/sessions'', servers_Select e ''jupyter''),
      (''POST /api/v1/jupyter/sessions'', jupyter_startServer e),
      (''DELETE /api/v1/jupyter/sessions/{id}'', servers_Stop e),
      (''GET /api/v1/terminal/sessions'', servers_Select e ''terminal''),
      (''POST /api/v1/terminal/sessions'', terminal_startServer e),
      (''DELETE /api/v1/terminal/sessions/{id}'', servers_Stop e),
      (''POST /api/v1/filesystem/mount'', notImplemented ''mount'' [''source'', ''target'']),
      (''POST /api/v1/filesystem/unmount'', notImplemented ''unmount'' [''target'']),
      (''POST /api/v1/filesystem/copy'', notImplemented ''copy'' [''source'', ''target'']),
      (''POST /api/v1/filesystem/sync'', notImplemented ''sync'' [''source'', ''target'']),
      (''POST /api/v1/checkpoint/pause'', pause e), (''POST /api/v1/checkpoint/resume'', resume e)]"
  by (simp add: routes_def subsystems_def Mount_def add_def New_def route_key_def Routes_of_subsystems)

lemma all_actions:
  "actions e (subsystems parse_key e) =
     [(''shell.exec'', exec_action e),
      (''vscode.sessions.select'', servers_Select e ''sshd''),
      (''vscode.sessions.start'', vscode_startServer parse_key e),
      (''jupyter.setup'', jupyter_setup e),
      (''jupyter.sessions.select'', servers_Select e ''jupyter''),
      (''jupyter.sessions.start'', jupyter_startServer e),
      (''jupyter.sessions.stop'', servers_Stop e),
      (''terminal.sessions.select'', servers_Select e ''terminal''),
      (''terminal.sessions.start'', terminal_startServer e),
      (''terminal.sessions.stop'', servers_Stop e),
      (''filesystem.mount'', notImplemented ''mount'' [''source'', ''target'']),
      (''filesystem.unmount'', notImplemented ''unmount'' [''target'']),
      (''filesystem.copy'', notImplemented ''copy'' [''source'', ''target'']),
      (''filesystem.sync'', notImplemented ''sync'' [''source'', ''target'']),
      (''checkpoint.pause'', pause e), (''checkpoint.resume'', resume e)]"
  by (simp add: actions_def subsystems_def prefixed_def action_defs)

section \<open>Lemmas on the start\<close>

lemma started_tasks:
  assumes "tunnel_Parse ip_literal env enable modes args = Inr ts"
  shows "map fst ts = map transport_task (sort (modes_of modes))"
proof -
  have "list_all2 (started_as (Transports ip_literal) env args) (sort (modes_of modes)) ts"
    using assms by (simp only: tunnel_Parse_Inr)
  then show ?thesis
    by (rule list_all2_induct) (auto simp: started_as_def split: option.splits)
qed

section \<open>Properties\<close>

text \<open>C40: options are read back from the arguments that give them: any choice of flags, with any texts and
  any port from 0, and without a port the default one.\<close>

theorem options_are_read_back:
  "valid_options opts \<Longrightarrow> parse_options (option_args opts) = Some opts"
  by (rule options_code.dec_enc)

theorem options_are_read_back_witness:
  "parse_options [''--tunnel-enable'', ''--tunnel-mode'', ''link'', ''--tunnel-link-args'', ''--url ws://h'', ''--port'', ''0''] =
     Some \<lparr>printVersion = False, tunnelEnable = True, tunnelMode = ''link'',
       tunnelArgs = (\<lambda>name. if name = ''link'' then ''--url ws://h'' else []), port = 0, portSet = True,
       socket = [], workflow = []\<rparr>"
  using options_are_read_back [of "\<lparr>printVersion = False, tunnelEnable = True, tunnelMode = ''link'',
       tunnelArgs = (\<lambda>name. if name = ''link'' then ''--url ws://h'' else []), port = 0, portSet = True,
       socket = [], workflow = []\<rparr>"]
  by (simp add: valid_options_def max_int64_def option_args_def text_arg_def args_flag_def itoa_eval)

text \<open>Every route of a subsystem serves the very action that a workflow step names, and every action has
  its one route; beside them there are the health and the usage.\<close>

theorem every_action_has_its_route:
  "map fst (Routes (routes enc polled (subsystems parse_key e))) =
     [''GET /api/v1/health'', ''GET /api/v1/usage''] @ map fst api \<and>
   map fst (actions e (subsystems parse_key e)) = map snd api \<and> distinct (map fst api) \<and>
   list_all (\<lambda>(route, action). \<exists>a. map_of (Routes (routes enc polled (subsystems parse_key e))) route = Some a \<and>
     map_of (actions e (subsystems parse_key e)) action = Some a) api"
  by (simp add: all_routes all_actions api_def)


definition default_options :: options where
  "default_options = \<lparr>printVersion = False, tunnelEnable = False, tunnelMode = [], tunnelArgs = (\<lambda>_. []),
     port = 8080, portSet = False, socket = [], workflow = []\<rparr>"

lemma default_start_list:
  "start_list ip_literal read_workflow parse_yaml e acts default_options =
     Inr ([http_task (loopback 8080), usage_task], [])"
proof -
  have "tunnel_Parse ip_literal (getenv e) False [] (\<lambda>_. []) = Inr []"
    by (simp add: tunnel_Parse_Inr modes_of_def)
  then show ?thesis by (simp add: start_list_def default_options_def addrs_def)
qed


text \<open>The devtunnel transport carries the port, and is accepted with a socket in its place all the same: the
  API then listens on the socket only.\<close>

theorem devtunnel_accepts_a_socket_alone:
  assumes "getenv e devtunnel_Env \<noteq> []"
    and "opts = default_options\<lparr>socket := path, tunnelEnable := True, tunnelMode := ''devtunnel'',
      tunnelArgs := (\<lambda>name. if name = ''devtunnel'' then ''--id a --cluster use'' else [])\<rparr>" and "path \<noteq> []"
  shows "start_list ip_literal read_workflow parse_yaml e acts opts =
    Inr ([http_task path, usage_task, transport_task ''devtunnel''], [])"
proof -
  let ?args = "\<lambda>name. if name = ''devtunnel'' then ''--id a --cluster use'' else []"
  obtain d where "devtunnel_New ''--id a --cluster use'' (getenv e devtunnel_Env) = Inr d"
    using devtunnel_New_example by blast
  then have "list_all2 (started_as (Transports ip_literal) (getenv e) ?args) [''devtunnel'']
      [(transport_task ''devtunnel'', TunnelHost d)]"
    using assms(1) by (simp add: started_as_def Transports_def)
  moreover have "modes_of ''devtunnel'' = [''devtunnel'']" by code_simp
  ultimately have "tunnel_Parse ip_literal (getenv e) True ''devtunnel'' ?args =
      Inr [(transport_task ''devtunnel'', TunnelHost d)]"
    by (simp add: tunnel_Parse_Inr)
  with assms(2,3) show ?thesis by (simp add: start_list_def default_options_def addrs_def)
qed

text \<open>C37: the program exits 1 exactly when it could not start, when its own code failed or when the stop
  steps did, and whatever the code, every task that was still listed has ended before it exits.\<close>

theorem main_stops_everything:
  assumes "sound_env e" and "\<not> printVersion opts"
    and "main_run until_woken e (start_all opts) s = (status, s1)" and "consistent (tasks s1)"
    and "lookup (tasks (others e s1)) key = Some p"
  shows "fst (main until_woken e start_all opts s) = status \<and>
    (\<exists>c. cells (tasks (snd (main until_woken e start_all opts s))) p = Some c \<and> finished c \<and> ID (task c) = key \<and>
      State (task c) \<in> {StateFailed, StateExited}) \<and>
    (status = 1 \<longleftrightarrow> (\<exists>err. fst (start_all opts s) = Inl err) \<or>
      (\<exists>loaded s2 failed s3. start_all opts s = (Inr loaded, s2) \<and> main_select until_woken s2 = (failed, s3) \<and>
        (failed \<noteq> None \<or> fst (workflow_Run e loaded ''stop'' s3) \<noteq> None)))"
proof -
  have main: "main until_woken e start_all opts s = (status, tasks_StopAll e s1)"
    using assms(2,3) by (simp add: main_def)
  have "status = 1 \<longleftrightarrow> (\<exists>err. fst (start_all opts s) = Inl err) \<or>
      (\<exists>loaded s2 failed s3. start_all opts s = (Inr loaded, s2) \<and> main_select until_woken s2 = (failed, s3) \<and>
        (failed \<noteq> None \<or> fst (workflow_Run e loaded ''stop'' s3) \<noteq> None))"
    using assms(3) by (auto simp: main_run_def Let_def split: sum.splits prod.splits if_splits)
  with StopAll_finishes [OF assms(1,4,5)] show ?thesis by (simp add: main)
qed

theorem main_stops_everything_witness:
  "\<exists>c. cells (tasks (snd (main (\<lambda>s. (True, s)) (quiet_env None) (\<lambda>opts s. (Inl ''refused'', s)) default_options
     \<lparr>tasks = demo_world, pausing = {}, disk = Map.empty, tick = 0\<rparr>))) 0 = Some c \<and> finished c"
proof -
  let ?s = "\<lparr>tasks = demo_world, pausing = {}, disk = Map.empty, tick = 0\<rparr>"
  have "consistent (tasks ?s)"
    using reachable_system_inv [OF demo_started] by (auto intro: consistentI simp: spare_def)
  moreover have "lookup (tasks (others (quiet_env None) ?s)) ''usage'' = Some 0" by (simp add: lookup_def)
  moreover have "main_run (\<lambda>s. (True, s)) (quiet_env None) (\<lambda>s. (Inl ''refused'', s)) ?s = (1, ?s)"
    by (simp add: main_run_def)
  ultimately show ?thesis
    using main_stops_everything [OF quiet_sound, of default_options "\<lambda>s. (True, s)" None "\<lambda>opts s. (Inl ''refused'', s)" ?s 1 ?s]
    by (simp add: default_options_def) blast
qed

end
