(* ===== verification/Serving.thy ===== *)
theory Serving
  imports Startup
begin

text \<open>
  What every listener of \<^verbatim>\<open>http\<close> serves, \<^verbatim>\<open>main.go\<close>: the table of routes and, beside it, the
  streams of \<^verbatim>\<open>internal/forward\<close>; and which requests reach which action.
\<close>

section \<open>The handler of the listeners\<close>

datatype target = Api | ForwardStream

definition top_table :: "(string \<times> target) list" where
  "top_table = [(''/'', Api), (''GET /api/v1/forward/{port}'', ForwardStream)]"

datatype reply = Answered served | Streamed stream_end

definition serve_http ::
    "(nat \<Rightarrow> string \<Rightarrow> decoded) \<Rightarrow> env \<Rightarrow> (nat \<Rightarrow> string \<Rightarrow> bool) \<Rightarrow> (nat \<Rightarrow> bool) \<Rightarrow> sys action Router \<Rightarrow>
     string \<Rightarrow> string \<Rightarrow> string \<Rightarrow> sys \<Rightarrow> reply \<times> sys" where
  "serve_http dec e connects upgrades root method path body s =
     (case mux top_table method path of
        Matched ForwardStream binds \<Rightarrow>
          (let (r, s) = Stream e connects upgrades (path_value binds ''port'') s in (Streamed r, s))
      | Matched Api binds \<Rightarrow>
          (let (r, s) = Handler dec root method path body s in (Answered r, s))
      | MethodNotAllowed \<Rightarrow> (Answered (PlainStatus 405), s)
      | Router.NotFound \<Rightarrow> (Answered (PlainStatus 404), s))"

section \<open>Lemmas on the multiplexer\<close>

text \<open>All patterns of a method that match: when there is one, it is the best.\<close>

fun match_parsed :: "((string \<times> seg list) \<times> 'h) list \<Rightarrow> string \<Rightarrow> string list \<Rightarrow> 'h hit list" where
  "match_parsed [] m path = []"
| "match_parsed (((pm, segs), h) # rest) m path =
     (if pm \<noteq> m then match_parsed rest m path
      else case match_segs segs path of
          None \<Rightarrow> match_parsed rest m path
        | Some binds \<Rightarrow> (segs, h, binds) # match_parsed rest m path)"

lemma best_match_unique:
  "match_parsed (map (apfst parse_pattern) tbl) m path = [hit] \<Longrightarrow> best_match tbl m path = Some hit"
  "match_parsed (map (apfst parse_pattern) tbl) m path = [] \<Longrightarrow> best_match tbl m path = None"
proof (induction tbl arbitrary: hit)
  case (Cons x tbl)
  obtain pat h where x: "x = (pat, h)" by (rule prod.exhaust)
  obtain pm segs where p: "parse_pattern pat = (pm, segs)" by (rule prod.exhaust)
  { case 1 with Cons.IH show ?case by (auto simp: x p split: if_splits option.splits) }
  { case 2 with Cons.IH show ?case by (auto simp: x p split: if_splits option.splits) }
qed simp_all

lemma mux_unique:
  assumes "match_parsed (map (apfst parse_pattern) tbl) m (path_segs path) = [(segs, h, binds)]"
  shows "mux tbl m path = Matched h binds"
  using best_match_unique(1) [OF assms] by (simp add: mux_def map_filter_def)

text \<open>The multiplexer only chooses: it does so alike whatever the handlers are.\<close>

lemma best_match_map:
  "best_match (map (apsnd f) tbl) m path = map_option (\<lambda>(segs, h, binds). (segs, f h, binds)) (best_match tbl m path)"
proof (induction tbl)
  case (Cons x tbl)
  obtain pat h where x: "x = (pat, h)" by (rule prod.exhaust)
  obtain pm segs where p: "parse_pattern pat = (pm, segs)" by (rule prod.exhaust)
  show ?case
    by (cases "match_segs segs path"; cases "best_match tbl m path")
      (auto simp: x p Cons.IH Let_def)
qed simp

lemma mux_map:
  "mux (map (apsnd f) tbl) m path = map_mux_result f (mux tbl m path)"
proof -
  have filter: "List.map_filter (\<lambda>m'. best_match (map (apsnd f) tbl) m' p) ms =
      map (\<lambda>(segs, h, binds). (segs, f h, binds)) (List.map_filter (\<lambda>m'. best_match tbl m' p) ms)" for p ms
    by (induction ms) (auto simp: map_filter_simps best_match_map split: option.split)
  have found: "list_ex (\<lambda>(pat, _). P pat) (map (apsnd f) tbl) = list_ex (\<lambda>(pat, _). P pat) tbl" for P
    by (induction tbl) auto
  show ?thesis
    unfolding mux_def Let_def filter found
    by (cases "List.map_filter (\<lambda>m'. best_match tbl m' (path_segs path)) ([m] @ (if m = ''HEAD'' then [''GET''] else []) @ [[]])")
      auto
qed

section \<open>The tables\<close>

lemma parsed_top: "parse_pattern ''/'' = ([], [Rest])"
  "parse_pattern ''GET /api/v1/forward/{port}'' = (''GET'', [Lit ''api'', Lit ''v1'', Lit ''forward'', Wild ''port''])"
  by code_simp+

lemma parsed_api:
  "parse_pattern ''GET /api/v1/health'' = (''GET'', [Lit ''api'', Lit ''v1'', Lit ''health''])"
  "parse_pattern ''GET /api/v1/usage'' = (''GET'', [Lit ''api'', Lit ''v1'', Lit ''usage''])"
  "parse_pattern ''POST /api/v1/workflow/shell/exec'' = (''POST'', [Lit ''api'', Lit ''v1'', Lit ''workflow'', Lit ''shell'', Lit ''exec''])"
  "parse_pattern ''GET /api/v1/vscode/sessions'' = (''GET'', [Lit ''api'', Lit ''v1'', Lit ''vscode'', Lit ''sessions''])"
  "parse_pattern ''POST /api/v1/vscode/sessions'' = (''POST'', [Lit ''api'', Lit ''v1'', Lit ''vscode'', Lit ''sessions''])"
  "parse_pattern ''POST /api/v1/jupyter/setup'' = (''POST'', [Lit ''api'', Lit ''v1'', Lit ''jupyter'', Lit ''setup''])"
  "parse_pattern ''GET /api/v1/jupyter/sessions'' = (''GET'', [Lit ''api'', Lit ''v1'', Lit ''jupyter'', Lit ''sessions''])"
  "parse_pattern ''POST /api/v1/jupyter/sessions'' = (''POST'', [Lit ''api'', Lit ''v1'', Lit ''jupyter'', Lit ''sessions''])"
  "parse_pattern ''DELETE /api/v1/jupyter/sessions/{id}'' = (''DELETE'', [Lit ''api'', Lit ''v1'', Lit ''jupyter'', Lit ''sessions'', Wild ''id''])"
  "parse_pattern ''GET /api/v1/terminal/sessions'' = (''GET'', [Lit ''api'', Lit ''v1'', Lit ''terminal'', Lit ''sessions''])"
  "parse_pattern ''POST /api/v1/terminal/sessions'' = (''POST'', [Lit ''api'', Lit ''v1'', Lit ''terminal'', Lit ''sessions''])"
  "parse_pattern ''DELETE /api/v1/terminal/sessions/{id}'' = (''DELETE'', [Lit ''api'', Lit ''v1'', Lit ''terminal'', Lit ''sessions'', Wild ''id''])"
  "parse_pattern ''POST /api/v1/filesystem/mount'' = (''POST'', [Lit ''api'', Lit ''v1'', Lit ''filesystem'', Lit ''mount''])"
  "parse_pattern ''POST /api/v1/filesystem/unmount'' = (''POST'', [Lit ''api'', Lit ''v1'', Lit ''filesystem'', Lit ''unmount''])"
  "parse_pattern ''POST /api/v1/filesystem/copy'' = (''POST'', [Lit ''api'', Lit ''v1'', Lit ''filesystem'', Lit ''copy''])"
  "parse_pattern ''POST /api/v1/filesystem/sync'' = (''POST'', [Lit ''api'', Lit ''v1'', Lit ''filesystem'', Lit ''sync''])"
  "parse_pattern ''POST /api/v1/checkpoint/pause'' = (''POST'', [Lit ''api'', Lit ''v1'', Lit ''checkpoint'', Lit ''pause''])"
  "parse_pattern ''POST /api/v1/checkpoint/resume'' = (''POST'', [Lit ''api'', Lit ''v1'', Lit ''checkpoint'', Lit ''resume''])"
  by code_simp+

lemma path_segs_api:
  "path_segs ''/api/v1/health'' = [''api'', ''v1'', ''health'']"
  "path_segs ''/api/v1/usage'' = [''api'', ''v1'', ''usage'']"
  "path_segs ''/api/v1/workflow/shell/exec'' = [''api'', ''v1'', ''workflow'', ''shell'', ''exec'']"
  "path_segs ''/api/v1/vscode/sessions'' = [''api'', ''v1'', ''vscode'', ''sessions'']"
  "path_segs ''/api/v1/jupyter/setup'' = [''api'', ''v1'', ''jupyter'', ''setup'']"
  "path_segs ''/api/v1/jupyter/sessions'' = [''api'', ''v1'', ''jupyter'', ''sessions'']"
  "path_segs ''/api/v1/terminal/sessions'' = [''api'', ''v1'', ''terminal'', ''sessions'']"
  "path_segs ''/api/v1/filesystem/mount'' = [''api'', ''v1'', ''filesystem'', ''mount'']"
  "path_segs ''/api/v1/filesystem/unmount'' = [''api'', ''v1'', ''filesystem'', ''unmount'']"
  "path_segs ''/api/v1/filesystem/copy'' = [''api'', ''v1'', ''filesystem'', ''copy'']"
  "path_segs ''/api/v1/filesystem/sync'' = [''api'', ''v1'', ''filesystem'', ''sync'']"
  "path_segs ''/api/v1/checkpoint/pause'' = [''api'', ''v1'', ''checkpoint'', ''pause'']"
  "path_segs ''/api/v1/checkpoint/resume'' = [''api'', ''v1'', ''checkpoint'', ''resume'']"
  by code_simp+


lemma path_segs_key:
  assumes "CHR ''/'' \<notin> set key"
  shows "path_segs (''/api/v1/terminal/sessions/'' @ key) = [''api'', ''v1'', ''terminal'', ''sessions'', key]"
    and "path_segs (''/api/v1/jupyter/sessions/'' @ key) = [''api'', ''v1'', ''jupyter'', ''sessions'', key]"
    and "path_segs (''/api/v1/forward/'' @ key) = [''api'', ''v1'', ''forward'', key]"
  using assms by (simp_all add: path_segs_def split_at_char_single)

text \<open>The table of routes with the name of its action for each, and how it is split.\<close>

definition named_table :: "(string \<times> string) list" where
  "named_table = [(''GET /api/v1/health'', ''health''), (''GET /api/v1/usage'', ''usage'')] @ api"

lemmas named_parsed = arg_cong [where f = "map (apfst parse_pattern)",
  OF named_table_def [unfolded api_def append.simps], unfolded list.map apfst_conv parsed_api]

definition action_called :: "encoders \<Rightarrow> (sys \<Rightarrow> poll) \<Rightarrow> (string \<times> sys action) list \<Rightarrow> string \<Rightarrow> sys action" where
  "action_called enc polled acts name =
     (if name = ''health'' then health else if name = ''usage'' then usage_action enc polled else the (map_of acts name))"

lemma routes_named:
  "Routes (routes enc polled (subsystems parse_key e)) = map (apsnd (action_called enc polled (actions e (subsystems parse_key e)))) named_table"
  unfolding all_routes all_actions named_table_def api_def by (simp add: action_called_def)

section \<open>Requests\<close>

text \<open>The requests of the API: method, path, the id in it, and the action they are for.\<close>

definition api_requests :: "string \<Rightarrow> (string \<times> string \<times> string \<times> string) list" where
  "api_requests key =
     [(''GET'', ''/api/v1/health'', [], ''health''),
      (''GET'', ''/api/v1/usage'', [], ''usage''),
      (''POST'', ''/api/v1/workflow/shell/exec'', [], ''shell.exec''),
      (''GET'', ''/api/v1/vscode/sessions'', [], ''vscode.sessions.select''),
      (''POST'', ''/api/v1/vscode/sessions'', [], ''vscode.sessions.start''),
      (''POST'', ''/api/v1/jupyter/setup'', [], ''jupyter.setup''),
      (''GET'', ''/api/v1/jupyter/sessions'', [], ''jupyter.sessions.select''),
      (''POST'', ''/api/v1/jupyter/sessions'', [], ''jupyter.sessions.start''),
      (''DELETE'', ''/api/v1/jupyter/sessions/'' @ key, key, ''jupyter.sessions.stop''),
      (''GET'', ''/api/v1/terminal/sessions'', [], ''terminal.sessions.select''),
      (''POST'', ''/api/v1/terminal/sessions'', [], ''terminal.sessions.start''),
      (''DELETE'', ''/api/v1/terminal/sessions/'' @ key, key, ''terminal.sessions.stop''),
      (''POST'', ''/api/v1/filesystem/mount'', [], ''filesystem.mount''),
      (''POST'', ''/api/v1/filesystem/unmount'', [], ''filesystem.unmount''),
      (''POST'', ''/api/v1/filesystem/copy'', [], ''filesystem.copy''),
      (''POST'', ''/api/v1/filesystem/sync'', [], ''filesystem.sync''),
      (''POST'', ''/api/v1/checkpoint/pause'', [], ''checkpoint.pause''),
      (''POST'', ''/api/v1/checkpoint/resume'', [], ''checkpoint.resume'')]"

text \<open>What the one pattern that matches stands for, and the id it reads.\<close>

definition only_match :: "((string \<times> seg list) \<times> 'h) list \<Rightarrow> string \<Rightarrow> string list \<Rightarrow> ('h \<times> string) option" where
  "only_match parsed m path =
     (case match_parsed parsed m path of [(segs, h, binds)] \<Rightarrow> Some (h, path_value binds ''id'') | _ \<Rightarrow> None)"

lemma only_match_mux:
  "only_match (map (apfst parse_pattern) tbl) m (path_segs path) = Some (h, v) \<Longrightarrow>
     \<exists>binds. mux tbl m path = Matched h binds \<and> path_value binds ''id'' = v"
  by (simp add: only_match_def split: list.splits prod.splits) (metis mux_unique)

lemma request_segs:
  assumes "CHR ''/'' \<notin> set key"
  shows "map (\<lambda>(m, path, v, name). (m, path_segs path, v, name)) (api_requests key) =
    map (\<lambda>(m, path, v, name). (m, ''api'' # ''v1'' # path, v, name))
     [(''GET'', [''health''], [], ''health''),
      (''GET'', [''usage''], [], ''usage''),
      (''POST'', [''workflow'', ''shell'', ''exec''], [], ''shell.exec''),
      (''GET'', [''vscode'', ''sessions''], [], ''vscode.sessions.select''),
      (''POST'', [''vscode'', ''sessions''], [], ''vscode.sessions.start''),
      (''POST'', [''jupyter'', ''setup''], [], ''jupyter.setup''),
      (''GET'', [''jupyter'', ''sessions''], [], ''jupyter.sessions.select''),
      (''POST'', [''jupyter'', ''sessions''], [], ''jupyter.sessions.start''),
      (''DELETE'', [''jupyter'', ''sessions'', key], key, ''jupyter.sessions.stop''),
      (''GET'', [''terminal'', ''sessions''], [], ''terminal.sessions.select''),
      (''POST'', [''terminal'', ''sessions''], [], ''terminal.sessions.start''),
      (''DELETE'', [''terminal'', ''sessions'', key], key, ''terminal.sessions.stop''),
      (''POST'', [''filesystem'', ''mount''], [], ''filesystem.mount''),
      (''POST'', [''filesystem'', ''unmount''], [], ''filesystem.unmount''),
      (''POST'', [''filesystem'', ''copy''], [], ''filesystem.copy''),
      (''POST'', [''filesystem'', ''sync''], [], ''filesystem.sync''),
      (''POST'', [''checkpoint'', ''pause''], [], ''checkpoint.pause''),
      (''POST'', [''checkpoint'', ''resume''], [], ''checkpoint.resume'')]"
  unfolding api_requests_def list.map prod.case path_segs_api path_segs_key [OF assms] ..

lemma requests_match:
  assumes "CHR ''/'' \<notin> set key" and "key \<noteq> []"
  shows "list_all (\<lambda>(m, path, v, name).
      only_match (map (apfst parse_pattern) named_table) m path = Some (name, v) \<and>
      match_parsed (map (apfst parse_pattern) top_table) m path = [] \<and> m \<noteq> ''HEAD'' \<and> path \<noteq> [])
    (map (\<lambda>(m, path, v, name). (m, path_segs path, v, name)) (api_requests key))"
  unfolding request_segs [OF assms(1)] named_parsed
  using assms(2) by (simp add: only_match_def path_value_def top_table_def parsed_top)

lemma api_under_root:
  assumes "match_parsed (map (apfst parse_pattern) top_table) m (path_segs path) = []" and "m \<noteq> ''HEAD''"
    and "path_segs path \<noteq> []"
  shows "mux top_table m path = Matched Api []"
proof -
  have "best_match top_table [] (path_segs path) = Some ([Rest], Api, [])"
    by (simp add: top_table_def parsed_top)
  with assms(2) best_match_unique(2) [OF assms(1)] show ?thesis by (simp add: mux_def map_filter_def)
qed

lemma serve_api:
  assumes "mux top_table m path = Matched Api []" and "mux named_table m path = Matched name binds"
    and "path_value binds ''id'' = v" and "acts = actions e (subsystems parse_key e)"
  shows "serve_http dec e connects upgrades (routes enc polled (subsystems parse_key e)) m path body s =
    map_prod (Answered \<circ> Served) id (respond (action_called enc polled acts name) (dec max_body body) v s)"
  using assms by (cases "respond (action_called enc polled acts name) (dec max_body body) v s")
    (simp add: serve_http_def Handler_def routes_named mux_map)

lemma api_requests_served:
  assumes "CHR ''/'' \<notin> set key" and "key \<noteq> []" and "(m, path, v, name) \<in> set (api_requests key)"
  shows "serve_http dec e connects upgrades (routes enc polled (subsystems parse_key e)) m path body s =
    map_prod (Answered \<circ> Served) id
      (respond (action_called enc polled (actions e (subsystems parse_key e)) name) (dec max_body body) v s)"
proof -
  let ?segs = "\<lambda>(m, path, v, name). (m, path_segs path, v, name)"
  have "(m, path_segs path, v, name) \<in> set (map ?segs (api_requests key))"
    using imageI [OF assms(3), of ?segs] by simp
  from bspec [OF requests_match [OF assms(1,2), unfolded list_all_iff] this] have
    only: "only_match (map (apfst parse_pattern) named_table) m (path_segs path) = Some (name, v)"
    and none: "match_parsed (map (apfst parse_pattern) top_table) m (path_segs path) = []" "m \<noteq> ''HEAD''" "path_segs path \<noteq> []"
    by simp_all
  with only_match_mux [OF only] none show ?thesis by (auto intro: serve_api api_under_root)
qed

lemma forward_request_served:
  assumes "CHR ''/'' \<notin> set key" and "key \<noteq> []"
  shows "serve_http dec e connects upgrades root ''GET'' (''/api/v1/forward/'' @ key) body s =
    map_prod Streamed id (Stream e connects upgrades key s)"
proof -
  have "match_parsed (map (apfst parse_pattern) top_table) ''GET'' (path_segs (''/api/v1/forward/'' @ key)) =
      [([Lit ''api'', Lit ''v1'', Lit ''forward'', Wild ''port''], ForwardStream, [(''port'', key)])]"
    unfolding path_segs_key [OF assms(1)] using assms(2) by (simp add: top_table_def parsed_top)
  from mux_unique [OF this] show ?thesis
    by (simp add: serve_http_def path_value_def split: prod.split)
qed

section \<open>Properties\<close>

text \<open>C39: every request of the API is answered by the very action that a workflow step of that name runs,
  with the body decoded under its cap and the id of the path, and a forward request by the
  stream to the port of its path; neither shadows the other.\<close>

theorem requests_reach_their_action:
  assumes "CHR ''/'' \<notin> set key" and "key \<noteq> []"
  shows "let acts = actions e (subsystems parse_key e);
      serve = serve_http dec e connects upgrades (routes enc polled (subsystems parse_key e))
    in list_all (\<lambda>(m, path, v, name). serve m path body s =
         map_prod (Answered \<circ> Served) id (respond (action_called enc polled acts name) (dec max_body body) v s)) (api_requests key) \<and>
      serve ''GET'' (''/api/v1/forward/'' @ key) body s = map_prod Streamed id (Stream e connects upgrades key s)"
  unfolding Let_def list_all_iff
  by (intro conjI ballI forward_request_served [OF assms]) (auto intro: api_requests_served [OF assms])

definition plain_json :: encoders where
  "plain_json = \<lparr>time_json = JNum, float_json = (\<lambda>_. JNull)\<rparr>"

theorem requests_reach_their_action_witness:
  "serve_http (\<lambda>_ _. EndOfBody) (quiet_env None) (\<lambda>_ _. True) (\<lambda>_. True)
       (routes plain_json (\<lambda>_. polling) (subsystems (\<lambda>k. None :: (unit \<times> string list) option) (quiet_env None)))
     ''DELETE'' ''/api/v1/terminal/sessions/t-1'' [] \<lparr>tasks = empty_world, pausing = {}, disk = Map.empty, tick = 0\<rparr> =
   map_prod (Answered \<circ> Served) id (respond (servers_Stop (quiet_env None)) EndOfBody ''t-1''
     \<lparr>tasks = empty_world, pausing = {}, disk = Map.empty, tick = 0\<rparr>)"
  using requests_reach_their_action [of "''t-1''" "quiet_env None" "\<lambda>k. None :: (unit \<times> string list) option" "\<lambda>_ _. EndOfBody"
      "\<lambda>_ _. True" "\<lambda>_. True" plain_json "\<lambda>_. polling" "[]" "\<lparr>tasks = empty_world, pausing = {}, disk = Map.empty, tick = 0\<rparr>"]
  by (simp add: Let_def api_requests_def all_actions action_called_def)

end
