(* ===== verification/Answers.thy ===== *)
theory Answers
  imports Serving
begin

text \<open>
  What the API promises of its answers, whatever the action: which statuses there are, which of
  them carry an error, and what a refused request leaves of the state.
\<close>

section \<open>The contract of an action\<close>

text \<open>
  A success carries no error; a refusal of the parameters or of the platform changes nothing; an
  unknown id leaves what the rest of the program has done meanwhile. Only a 500 can lack a text,
  that of the error it passes on.
\<close>

definition well_answered :: "env \<Rightarrow> sys \<Rightarrow> answer \<times> sys \<Rightarrow> bool" where
  "well_answered e s r = (case r of ((status, body, msg), s') \<Rightarrow>
     status \<in> {200, 201, 202} \<and> msg = [] \<or>
     status = 500 \<and> body = JNull \<or>
     status \<in> {400, 501} \<and> body = JNull \<and> msg \<noteq> [] \<and> s' = s \<or>
     status = 404 \<and> body = JNull \<and> msg \<noteq> [] \<and> s' = turn e s)"

definition error_shape :: "json \<Rightarrow> bool" where
  "error_shape p \<longleftrightarrow> (\<exists>msg. msg \<noteq> [] \<and> p = JObj [(''error'', JStr msg)])"

text \<open>The same over HTTP, where the decoder can refuse the body before the action is reached.\<close>

definition well_served :: "env \<Rightarrow> sys \<Rightarrow> http_response \<times> sys \<Rightarrow> bool" where
  "well_served e s r = (case r of (r, s') \<Rightarrow>
     (code r \<in> {200, 201, 202} \<or> code r \<in> {400, 404, 413, 501} \<and> error_shape (payload r) \<or>
      code r = 500 \<and> (payload r = JNull \<or> error_shape (payload r))) \<and>
     (code r \<in> {400, 413, 501} \<longrightarrow> s' = s) \<and> (code r = 404 \<longrightarrow> s' = turn e s))"

lemma well_answeredI:
  "msg = [] \<Longrightarrow> status \<in> {200, 201, 202} \<Longrightarrow> well_answered e s ((status, body, msg), s')"
  "well_answered e s ((500, JNull, err), s')"
  "msg \<noteq> [] \<Longrightarrow> status \<in> {400, 501} \<Longrightarrow> well_answered e s ((status, JNull, msg), s)"
  "msg \<noteq> [] \<Longrightarrow> well_answered e s ((404, JNull, msg), turn e s)"
  by (auto simp: well_answered_def)

lemma write_response_shape:
  "code (write_response status body msg) = status"
  "msg \<noteq> [] \<Longrightarrow> error_shape (payload (write_response status body msg))"
  "payload (write_response status body []) = body"
  by (simp_all add: write_response_def error_shape_def)

locale action_table =
  fixes e :: env and table :: "(string \<times> sys action) list"
  assumes well: "(name, a) \<in> set table \<Longrightarrow> well_answered e s (a ps s)"
begin

lemma step_fails_with_the_status:
  assumes "(name, a) \<in> set table"
  shows "failed (fst (a ps s)) \<longleftrightarrow> 400 \<le> fst (fst (a ps s))"
  using well [OF assms, of s ps] by (auto simp: well_answered_def failed_def)

lemma answer_served:
  assumes "(name, a) \<in> set table"
  shows "well_served e s (case a ps s of ((status, body, msg), s') \<Rightarrow> (write_response status body msg, s'))"
proof -
  obtain status body msg s' where a: "a ps s = ((status, body, msg), s')" by (metis prod.exhaust)
  from well [OF assms, of s ps] show ?thesis
    by (cases "msg = []") (auto simp: a well_answered_def well_served_def write_response_shape)
qed

lemma respond_served:
  assumes "(name, a) \<in> set table" and "dec \<noteq> BodyTooLarge []"
  shows "well_served e s (respond a dec v s)"
proof -
  note reached = answer_served [OF assms(1), unfolded case_prod_beta]
  show ?thesis
  proof (cases dec)
    case (BodyTooLarge err)
    with assms(2) show ?thesis by (auto simp: respond_def well_served_def write_response_shape)
  next
    case (BadBody err)
    then show ?thesis by (auto simp: respond_def well_served_def write_response_shape)
  qed (simp_all add: respond_def Let_def case_prod_beta reached)
qed

end

section \<open>The actions\<close>

lemma Run_answers: "well_answered e s (servers_Run e t args s0)"
  by (simp add: servers_Run_def Let_def case_prod_beta well_answeredI)

lemma Serve_answers: "well_answered e s (Serve e t s0)"
  by (auto simp: Serve_def well_answeredI split: sum.splits prod.splits)

lemma setup_answers: "well_answered e s (run_steps e todo s0)"
  by (induction e todo s0 rule: run_steps.induct)
    (auto simp: well_answeredI split: option.splits prod.splits)

lemma Select_answers: "well_answered e s (servers_Select e kind ps s)"
  by (simp add: servers_Select_def Let_def case_prod_beta well_answeredI)

lemma Stop_of_unknown: "tasks_Stop e key s = (False, s') \<Longrightarrow> s' = turn e s"
  by (auto simp: tasks_Stop_def Let_def stop_begin_def unlist_absent split: option.splits)

lemma Stop_answers: "well_answered e s (servers_Stop e ps s)"
  by (auto simp: servers_Stop_def Let_def well_answeredI dest!: Stop_of_unknown split: prod.splits)

lemma notImplemented_answers: "well_answered e s (notImplemented name needed ps s)"
  by (auto simp: notImplemented_def well_answeredI split: option.splits)

lemma exec_answers: "well_answered e s (exec_action e ps s)"
  by (simp add: exec_action_def Let_def Run_answers well_answeredI)

lemma terminal_answers: "well_answered e s (terminal_startServer e ps s)"
proof -
  have "err \<noteq> []" if "Asset e terminal_assets ''ttyd'' = Inl err" for err
    using that by (auto simp: Asset_def split: option.splits if_splits)
  then show ?thesis by (auto simp: terminal_startServer_def Let_def Serve_answers well_answeredI split: sum.splits)
qed

lemma jupyter_answers:
  "well_answered e s (jupyter_setup e ps s)" "well_answered e s (jupyter_startServer e ps s)"
  by (simp_all add: jupyter_setup_def jupyter_startServer_def Let_def case_prod_beta setup_answers Serve_answers)

lemma vscode_answers: "well_answered e s (vscode_startServer parse_key e ps s)"
  by (auto simp: vscode_startServer_def Let_def well_answeredI split: option.splits prod.splits sum.splits)

lemma pause_answers: "well_answered e s (pause e ps s)"
  by (auto simp: pause_def tasks_Select_def Let_def well_answeredI split: option.splits prod.splits)

lemma resume_answers: "well_answered e s (resume e ps s)"
  by (auto simp: resume_def os_ReadFile_def Let_def Run_answers well_answeredI split: option.splits prod.splits)

lemma own_answers:
  "well_answered e s (health ps s)" "well_answered e s (usage_action enc polled ps s)"
  by (simp_all add: health_def usage_action_def well_answeredI)

lemmas answers = Select_answers Stop_answers notImplemented_answers exec_answers terminal_answers jupyter_answers
  vscode_answers pause_answers resume_answers own_answers

text \<open>The table of the routes, and that of the actions of a workflow.\<close>

interpretation api: action_table e "Routes (routes enc polled (subsystems parse_key e))" for e enc polled parse_key
proof
  fix name a s ps
  assume "(name, a) \<in> set (Routes (routes enc polled (subsystems parse_key e)))"
  then show "well_answered e s (a ps s)" unfolding all_routes by (auto simp: answers)
qed

interpretation steps: action_table e "actions e (subsystems parse_key e)" for e parse_key
proof
  fix name a s ps
  assume "(name, a) \<in> set (actions e (subsystems parse_key e))"
  then show "well_answered e s (a ps s)" unfolding all_actions by (auto simp: answers)
qed

lemma api_request_routed:
  assumes "(m, path, v, name) \<in> set (api_requests key)"
  shows "\<exists>route. (route, action_called enc polled (actions e (subsystems parse_key e)) name) \<in>
    set (Routes (routes enc polled (subsystems parse_key e)))"
proof -
  let ?name = "\<lambda>(m, path, v, name). name"
  have "map ?name (api_requests key) = map snd named_table"
    by (simp add: api_requests_def named_table_def api_def)
  moreover have "name \<in> set (map ?name (api_requests key))"
    using imageI [OF assms, of ?name] by simp
  ultimately obtain route where "(route, name) \<in> set named_table" by auto
  from imageI [OF this, of "apsnd (action_called enc polled (actions e (subsystems parse_key e)))"]
  show ?thesis unfolding routes_named set_map by auto
qed

section \<open>Property\<close>



end
