(* ===== verification/Started.thy ===== *)
theory Started
  imports Answers
begin

text \<open>
  What a workflow waits for: \<^verbatim>\<open>Run\<close> reads back the id of what a step created from the JSON of the
  step's answer. Here that id is followed from the registry through the encoding and back.
\<close>

section \<open>The id in an answer\<close>

definition plain_attrs :: "Task \<Rightarrow> bool" where
  "plain_attrs t \<longleftrightarrow> (\<forall>attrs. Attrs t = Some attrs \<longrightarrow> list_all (\<lambda>(k, v). \<not> is_id_key k) attrs)"

abbreviation ids :: "(string \<times> json) list \<Rightarrow> (string \<times> json) list" where
  "ids \<equiv> filter (is_id_key \<circ> fst)"

lemma decode_id_ids: "decode_id kvs acc = decode_id (ids kvs) acc"
  by (induction kvs acc rule: decode_id.induct) (auto split: json.split)

lemma ids_update: "\<not> is_id_key k \<Longrightarrow> ids (AList.update k v kvs) = ids kvs"
  by (induction kvs) auto

lemma ids_updates:
  "list_all (\<lambda>(k, v). \<not> is_id_key k) attrs \<Longrightarrow> ids (fold (\<lambda>(k, v). AList.update k (JStr v)) attrs out) = ids out"
  by (induction attrs arbitrary: out) (auto simp: ids_update)

lemma ids_attrs:
  "plain_attrs t \<Longrightarrow> ids (case Attrs t of None \<Rightarrow> out
     | Some attrs \<Rightarrow> fold (\<lambda>(k, v). AList.update k (JStr v)) attrs out) = ids out"
  by (cases "Attrs t") (simp_all only: plain_attrs_def option.case ids_updates)

lemma created_id_obj:
  "ids kvs = [(''id'', JStr key)] \<Longrightarrow> created_id (obj kvs) = (if key = [] then None else Some key)"
  by (simp add: created_id_def obj_def decode_id_ids [of "sort_key fst kvs"] filter_sort is_id_key_def)

lemma id_read_back:
  assumes "plain_attrs t"
  shows "created_id (MarshalJSON t) = (if ID t = [] then None else Some (ID t))"
  unfolding MarshalJSON_def Let_def
proof (rule created_id_obj)
  let ?out = "[(''id'', JStr (ID t)), (''addr'', JStr (Addr t)), (''state'', JStr (state_name (State t))), (''error'', JStr (Error t))]"
  let ?pid = "if Pid t \<noteq> 0 then AList.update ''pid'' (JNum (Pid t)) ?out else ?out"
  have out: "ids ?out = [(''id'', JStr (ID t))]" and "\<not> is_id_key ''pid''" by (simp_all add: is_id_key_def)
  then have "ids ?pid = [(''id'', JStr (ID t))]" by (cases "Pid t = 0") (simp_all only: ids_update if_True if_False simp_thms)
  with ids_attrs [OF assms, of ?pid] show "ids (case Attrs t of None \<Rightarrow> ?pid
      | Some attrs \<Rightarrow> fold (\<lambda>(k, v). AList.update k (JStr v)) attrs ?pid) = [(''id'', JStr (ID t))]" by (rule trans)
qed

lemma named_not_empty: "Start k t w = (Inr created, w') \<Longrightarrow> Kind t \<noteq> [] \<Longrightarrow> ID created \<noteq> []"
  by (auto simp: Start_def named_def bound_to_def prepare_def cmp_or_def Let_def split: if_splits sum.splits prod.splits work.splits)

lemma tasks_Start_named: "tasks_Start e t s = (Inr created, s') \<Longrightarrow> Kind t \<noteq> [] \<Longrightarrow> ID created \<noteq> []"
  by (auto simp: tasks_Start_def Let_def split: prod.splits dest: named_not_empty)

definition listed_as :: "json \<Rightarrow> sys \<Rightarrow> bool" where
  "listed_as out s \<longleftrightarrow> (\<exists>t p. created_id out = Some (ID t) \<and> lookup (tasks s) (ID t) = Some p \<and>
     cells (tasks s) p = Some (new_cell t))"

lemma started_listed:
  assumes "tasks_Start e t s = (Inr created, s')" and "Kind t \<noteq> []"
    and "created_id out = (if ID created = [] then None else Some (ID created))"
  shows "listed_as out s'"
  using tasks_Start_named [OF assms(1,2)] tasks_Start_listed(1) [OF assms(1)] assms(3)
  by (auto simp: listed_as_def)

lemma Serve_listed:
  assumes "Serve e t s = ((201, out, msg), s')" and "Kind t \<noteq> []" and "plain_attrs t"
  shows "listed_as out s'"
proof -
  obtain created where st: "tasks_Start e t s = (Inr created, s')" and out: "out = MarshalJSON created"
    using assms(1) by (rule Serve_created)
  have "plain_attrs created" using assms(3) tasks_Start_listed(4) [OF st] by (simp add: plain_attrs_def)
  with out show ?thesis by (intro started_listed [OF st assms(2)]) (simp add: id_read_back)
qed

lemma vscode_id: "created_id (vscode_answer t) = (if ID t = [] then None else Some (ID t))"
  unfolding vscode_answer_def by (rule created_id_obj) (simp add: is_id_key_def)

lemma vscode_listed:
  assumes "vscode_startServer parse_key e ps s = ((201, out, msg), s')"
  shows "listed_as out s'"
proof -
  obtain s1 created where st: "tasks_Start e (zero_task\<lparr>ID := Str ps ''ref'', Kind := ''sshd'', Work := ServerWork\<rparr>) s1 =
      (Inr created, s')" and "out = vscode_answer created"
    using assms by (auto simp: vscode_startServer_def Let_def split: option.splits prod.splits sum.splits if_splits)
  then show ?thesis by (intro started_listed [OF st]) (simp_all add: vscode_id)
qed

lemma terminal_listed:
  assumes "terminal_startServer e ps s = ((201, out, msg), s')"
  shows "listed_as out s'"
proof (rule Serve_listed)
  show "Serve e (zero_task\<lparr>ID := Str ps ''ref'', Kind := ''terminal'', Attrs := Some [(''cwd'', Str ps ''cwd'')],
      Work := SpawnWork (ttyd_command e (Str ps ''cwd''))\<rparr>) s = ((201, out, msg), s')"
    using assms by (simp add: terminal_startServer_def Let_def split: sum.splits)
qed (simp_all add: plain_attrs_def is_id_key_def)

lemma jupyter_listed:
  assumes "jupyter_startServer e ps s = ((201, out, msg), s')"
  shows "listed_as out s'"
  by (rule Serve_listed [OF assms [unfolded jupyter_startServer_def Let_def]]) (simp_all add: plain_attrs_def is_id_key_def)


section \<open>The actions\<close>

text \<open>No other action answers 201.\<close>

abbreviation status_of :: "answer \<times> sys \<Rightarrow> int" where
  "status_of r \<equiv> fst (fst r)"

lemma helpers_create_nothing:
  "status_of (servers_Run e t args s) \<noteq> 201" "status_of (run_steps e todo s) \<noteq> 201"
proof -
  show "status_of (servers_Run e t args s) \<noteq> 201" by (simp add: servers_Run_def Let_def case_prod_beta)
  show "status_of (run_steps e todo s) \<noteq> 201"
    by (induction e todo s rule: run_steps.induct) (auto split: option.splits prod.splits)
qed

lemma others_create_nothing:
  "status_of (servers_Select e kind ps s) \<noteq> 201" "status_of (servers_Stop e ps s) \<noteq> 201"
  "status_of (notImplemented name needed ps s) \<noteq> 201" "status_of (exec_action e ps s) \<noteq> 201"
  "status_of (jupyter_setup e ps s) \<noteq> 201" "status_of (pause e ps s) \<noteq> 201" "status_of (resume e ps s) \<noteq> 201"
proof -
  show "status_of (servers_Select e kind ps s) \<noteq> 201" by (simp add: servers_Select_def Let_def case_prod_beta)
  show "status_of (servers_Stop e ps s) \<noteq> 201" by (simp add: servers_Stop_def Let_def case_prod_beta)
  show "status_of (notImplemented name needed ps s) \<noteq> 201" by (simp add: notImplemented_def split: option.split)
  show "status_of (exec_action e ps s) \<noteq> 201" by (simp add: exec_action_def Let_def helpers_create_nothing)
  show "status_of (jupyter_setup e ps s) \<noteq> 201"
    by (simp add: jupyter_setup_def Let_def case_prod_beta helpers_create_nothing)
  show "status_of (pause e ps s) \<noteq> 201" by (simp add: pause_def Let_def case_prod_beta split: option.split)
  show "status_of (resume e ps s) \<noteq> 201"
    by (simp add: resume_def Let_def case_prod_beta helpers_create_nothing split: option.split)
qed

definition lists_what_it_creates :: "answer \<times> sys \<Rightarrow> bool" where
  "lists_what_it_creates r \<longleftrightarrow> status_of r = 201 \<longrightarrow> listed_as (fst (snd (fst r))) (snd r)"

lemma starts_listed:
  "lists_what_it_creates (vscode_startServer parse_key e ps s)" "lists_what_it_creates (jupyter_startServer e ps s)"
  "lists_what_it_creates (terminal_startServer e ps s)"
  unfolding lists_what_it_creates_def
  by (metis prod.collapse vscode_listed) (metis prod.collapse jupyter_listed, metis prod.collapse terminal_listed)

lemma created_listed:
  "list_all (\<lambda>(name, a). lists_what_it_creates (a ps s) \<and>
     (status_of (a ps s) = 201 \<longrightarrow> name \<in> {''vscode.sessions.start'', ''jupyter.sessions.start'', ''terminal.sessions.start''}))
   (actions e (subsystems parse_key e))"
proof -
  have none: "status_of r \<noteq> 201 \<Longrightarrow> lists_what_it_creates r" for r by (simp add: lists_what_it_creates_def)
  show ?thesis
    unfolding all_actions
    by (simp only: list.pred_inject prod.case starts_listed others_create_nothing [THEN none] others_create_nothing
      insert_iff simp_thms)
qed

text \<open>A process is answered by its end, under the id it was started with.\<close>

theorem Run_names_its_process:
  assumes env: "sound_env e" and con: "consistent (tasks s)"
    and t: "Addr t = []" "Kind t \<noteq> []" "State t = StateNone" "Error t = []"
    and start: "servers_Start e t args s = (created, s1)"
    and kept: "lookup (tasks (turn e s1)) (ID created) = lookup (tasks s1) (ID created)"
    and run: "servers_Run e t args s = ((status, out, msg), s')" and ok: "status \<noteq> 500"
  shows "created_id out = Some (ID created)"
proof -
  have created: "Attrs created = Some [(''command'', join_with '' '' args)]" "ID created \<noteq> []"
    using start by (auto simp: servers_Start_eq [OF t(1)] process_started_simps cmp_or_def split: if_splits)
  from servers_Run_own_end [OF env con t start kept] obtain st body m s2 and c :: cell where
    r: "servers_Run e t args s = ((st, body, m), s2)" and body: "st \<noteq> 500 \<longrightarrow> body = MarshalJSON (task c) \<and> m = []"
    and ids: "ID (task c) = ID created" "Attrs (task c) = Attrs created"
    by blast
  with run ok have c: "out = MarshalJSON (task c)" "ID (task c) = ID created" "Attrs (task c) = Attrs created"
    by simp_all
  with created have "plain_attrs (task c)" by (simp add: plain_attrs_def is_id_key_def)
  with c created show ?thesis by (simp add: id_read_back)
qed

section \<open>Property\<close>

text \<open>C21: what a workflow waits for is what its steps started: only the start actions of the three kinds of
  servers answer 201, and the id that is read back from the JSON of such an answer is listed at
  that moment and names a task that has just been started.\<close>

theorem steps_name_what_they_start:
  assumes "(name, a) \<in> set (actions e (subsystems parse_key e))" and "a ps s = ((201, out, msg), s')"
  shows "name \<in> {''vscode.sessions.start'', ''jupyter.sessions.start'', ''terminal.sessions.start''} \<and>
    (\<exists>t p. created_id out = Some (ID t) \<and> lookup (tasks s') (ID t) = Some p \<and> cells (tasks s') p = Some (new_cell t))"
  using bspec [OF created_listed [of ps s e parse_key, unfolded list_all_iff] assms(1)]
  by (simp add: assms(2) lists_what_it_creates_def listed_as_def)

theorem steps_name_what_they_start_witness:
  "\<exists>out s' p. terminal_startServer (quiet_env None) Map.empty idle_sys = ((201, out, []), s') \<and>
     created_id out \<noteq> None \<and> lookup (tasks s') (the (created_id out)) = Some p"
proof -
  let ?e = "quiet_env None"
  have "split_host_port ''127.0.0.1:0'' \<noteq> None" by (simp add: split_host_port_def last_colon_def)
  then have "\<exists>out s'. terminal_startServer ?e Map.empty idle_sys = ((201, out, []), s')"
    by (simp add: terminal_startServer_def Asset_def terminal_assets_def Serve_def tasks_Start_def Start_def
      prepare_def listen_def zero_task_def Let_def Str_def quiet_env_def idle_sys_def)
  then obtain out s' where run: "terminal_startServer ?e Map.empty idle_sys = ((201, out, []), s')" by blast
  have "(''terminal.sessions.start'', terminal_startServer ?e) \<in>
      set (actions ?e (subsystems (\<lambda>k. None :: (unit \<times> string list) option) ?e))"
    unfolding all_actions by simp
  from steps_name_what_they_start [OF this run] run show ?thesis by auto
qed

end
