(* ===== verification/Spec2Isabelle.thy ===== *)
theory Spec2Isabelle
  imports TaskSpec Sessions Checkpoint Workflow Tunnel Sshd Usage Started
begin

text \<open>
  \<^bold>\<open>Linkspan\<close> is one Go program that runs inside a Slurm job and turns it into servers that can be
  reached from off the node. It keeps a registry of tasks (\<^verbatim>\<open>internal/tasks\<close>): servers in its own
  process, functions, child processes and child processes that serve a port. Actions start, list,
  stop and await these tasks (\<^verbatim>\<open>internal/servers\<close>, \<^verbatim>\<open>subsystems/*\<close>); each is served over HTTP by a
  route (\<^verbatim>\<open>internal/router\<close>, \<^verbatim>\<open>main.go\<close>) and named in the steps of a workflow file
  (\<^verbatim>\<open>subsystems/workflow\<close>). Transports carry the one control port off the node
  (\<^verbatim>\<open>internal/tunnel/*\<close>), a forward joins a WebSocket to a port that a running task serves
  (\<^verbatim>\<open>internal/forward\<close>), and a poll samples the use of the job (\<^verbatim>\<open>internal/usage\<close>).

  \<^bold>\<open>How the program is modelled.\<close> Data are records and datatypes with the fields and cases of the
  source; an operation is a function on an explicit state; an error, an early return and a recovered
  panic are values. What runs concurrently is a step relation, with an invariant that rule induction
  carries over every interleaving (locale \<open>invariant_of\<close> of theory \<open>Prelude\<close>). Code outside the
  repository is an argument: the decoders of JSON and YAML, the parsers of keys and addresses, the
  kernel, child processes, CRIU, the GPU libraries, WebSocket, yamux and SSH. The Go library's string,
  number, path, flag, URL and multiplexer functions that the program calls are written out.

  \<^bold>\<open>The theories\<close>, in the order they build on each other:

  \<^item> \<open>Prelude\<close>: strings, numbers, addresses, association lists; the locales \<open>invariant_of\<close> (a set of
    states that every step stays in) and \<open>codec\<close> (a decoder that undoes its encoder), which the step
    relations and the formats below interpret.

  \<^item> \<open>Router\<close>: \<^verbatim>\<open>internal/router/router.go\<close>. \<open>New\<close>, \<open>Mount\<close> and \<open>Handler\<close> build and serve the table,
    \<open>respond\<close> is the reader and writer of every route, \<open>mux\<close> is \<^verbatim>\<open>http.ServeMux\<close>.

  \<^item> \<open>Tasks\<close>: \<^verbatim>\<open>internal/tasks/tasks.go\<close> and what \<^verbatim>\<open>exec.go\<close> does to a task. The \<open>world\<close> holds a
    \<open>cell\<close> per task, at the address of the Go pointer, and the registry as a list of ids and
    addresses; \<open>Start\<close>, \<open>listen\<close>, \<open>Select\<close>, \<open>IsServing\<close>, \<open>wait_end\<close>, \<open>stop_begin\<close>,
    \<open>stop_all_begin\<close>, \<open>record_end\<close>, \<open>report_end\<close> are the sections that the code runs under the
    registry's lock. The locale \<open>task_table\<close> is what callers rely on of the registry as a map.

  \<^item> \<open>TaskSteps\<close>: \<open>gstep\<close> is the goroutine of a task with its child process, a rule for each thing it
    can do between two sections; \<open>cstep\<close> is any number of callers of \<^verbatim>\<open>Start\<close>, \<^verbatim>\<open>Wait\<close>, \<^verbatim>\<open>Stop\<close>
    and \<^verbatim>\<open>StopAll\<close>; \<open>step\<close> interleaves them with \<^verbatim>\<open>main\<close> taking the fatal error. \<open>TaskInv\<close>:
    \<open>system_inv\<close> is invariant and a cell only grows (\<open>cell_grows\<close>). \<open>TaskEnds\<close>: a goroutine ends,
    since \<open>rank\<close> falls with each move and is at most 29, which is twice the rank 14 of a goroutine's
    first position and one for its open listener; so do the callers that wait for it.

  \<^item> \<open>TaskProps\<close>: what follows for users of the registry: no task is lost, waits are sound and can
    end, only Linkspan's own code is fatal.

  \<^item> \<open>TaskSpec\<close>: an abstract registry of ids and phases, and the refinement of it by \<open>step\<close>.

  \<^item> \<open>System\<close>: the state that the actions share (registry, announced pauses, files) and their
    environment. Between any two sections of an action the rest of the program may move: \<open>others\<close>,
    \<open>until_done\<close> and \<open>during\<close>. \<open>sound_env\<close> says that these are moves of \<open>step\<close> and that a wait ends with
    the task's channel closed. No other assumption is made on them.

  \<^item> \<open>Servers\<close>: \<^verbatim>\<open>internal/servers/servers.go\<close>. \<open>Install\<close>: \<^verbatim>\<open>internal/install/install.go\<close>, a download
    with every step that can fail. \<open>Sessions\<close>: \<^verbatim>\<open>subsystems/terminal\<close>, \<^verbatim>\<open>jupyter\<close>, \<^verbatim>\<open>vscode\<close> and
    \<^verbatim>\<open>filesystem\<close>. \<open>Checkpoint\<close>: \<^verbatim>\<open>subsystems/checkpoint\<close>, with the files a pause writes and a resume
    reads.

  \<^item> \<open>Workflow\<close>: \<^verbatim>\<open>subsystems/workflow\<close>. \<open>Load\<close> checks and binds a document, \<open>workflow_Run\<close> runs the
    steps of one moment, and \<open>wf_step\<close> is the task that runs the start and ready steps beside those
    of the signals.

  \<^item> \<open>Flags\<close> and \<open>Url\<close>: \<^verbatim>\<open>flag\<close> and \<^verbatim>\<open>url.Parse\<close> as the program uses them.

  \<^item> \<open>Forward\<close>: \<^verbatim>\<open>internal/forward/forward.go\<close>. \<open>Dial\<close> and \<open>Stream\<close>, and \<open>loop_step\<close> with
    \<open>peer_step\<close> for the two loops of a pipe and its two peers.

  \<^item> \<open>Copies\<close>: two connections joined by a copy each way, for any ends that close what they write to
    (locale \<open>joining\<close>); a stream of a link and a forwarded unix socket interpret it with what the code
    defers to the ends of their copies.

  \<^item> \<open>Devtunnel\<close>, \<open>Link\<close>, \<open>Tunnel\<close>: \<^verbatim>\<open>internal/tunnel\<close>. The locale \<open>transport\<close> is the contract that
    the table of transports rests on, which both transports interpret; \<open>bounded_log\<close> is that of the
    tail of a process's output. \<open>tunnel_Parse\<close> reads the flags, \<open>redial\<close> reruns a transport.

  \<^item> \<open>Sshd\<close>: \<^verbatim>\<open>internal/sshd/sshd.go\<close>, the handlers and the guard that keeps their panics in.

  \<^item> \<open>Gpu\<close>: \<^verbatim>\<open>internal/usage/gpu.go\<close>. Both libraries are records of the functions that \<open>bind\<close> finds,
    and each call to DCGM is recorded in order. \<open>Usage\<close>: the rest of \<^verbatim>\<open>internal/usage\<close>, with the
    poll as the step relation \<open>poll_step\<close>, whose samples thread the state of the GPU readers.

  \<^item> \<open>Startup\<close> and \<open>Serving\<close>: \<^verbatim>\<open>main.go\<close>. The options, the tables of routes and actions, the tasks
    Linkspan starts with and the exit code; then what a listener serves, and which request reaches
    which action. \<open>Answers\<close>: what every answer of the API keeps to (locale \<open>action_table\<close>, interpreted
    for the table of routes and for that of the actions of a workflow). \<open>Started\<close>: the id that a
    workflow reads back from such an answer, to wait for it, is that of the task its step started.

  \<^bold>\<open>What the properties show.\<close> Each is a theorem after a text with its number. Those of the tasks hold in
  every reachable state of the interleaved system. Those of the actions hold for every sound
  environment, so for anything the rest of the program does meanwhile; a witness instantiates the
  environment with the quiet one, in which nothing else happens. Files can fail at every operation
  and a failed write leaves anything in the file it wrote. A loop that the code may run for ever (the
  poll, the pipe, the reruns of a transport, the multiplexed streams) is a step relation or runs over
  the list of what is to come, and the claims that it ends are proved as such: a bound of moves for a
  goroutine, a path of steps for \<^verbatim>\<open>StopAll\<close> and for a pipe.

  \<^bold>\<open>Not modelled.\<close> Time is an order of steps, so deadlines and intervals (the grace for a child's
  pipes, the poll of a port, the interval of samples) are not; only the waits of \<^verbatim>\<open>redial\<close> are numbers.
  Logging, the version and its flag's output, file modes other than the socket's, and HTTP below a
  request's method, path and body are left out. Conversions to \<^verbatim>\<open>float64\<close> are kept as they stand; the
  comparison with DCGM's blank values is decided on the bits. A request's context that ends early only
  ends what it waits for. In the JSON of a sample the text of a time and of a \<^verbatim>\<open>float64\<close> is an
  argument (\<open>encoders\<close>). White space is ASCII, and paths of requests are clean. What DCGM documents of
  its answers, that each is of an entity and a field it was asked for, is the hypothesis
  \<open>answers_as_asked\<close>; without it a sample can panic.
\<close>

end
